theory Spec2Isabelle
  imports Complex_Main "HOL-Library.Multiset"
begin

section \<open>Python strings\<close>

text \<open>
  A Python \<open>str\<close> is a sequence of Unicode code points, so it is modelled as a list of
  natural numbers. The literals of \<open>steam_streamlit_app.py\<close> that are not ASCII are
  written by their code points.
\<close>

type_synonym pystr = "nat list"

definition u :: "string \<Rightarrow> pystr" where
  "u s = map of_char s"

definition lit_unknown :: pystr where "lit_unknown = [26410, 30693]"
definition lit_free :: pystr where "lit_free = [20813, 36153]"
definition lit_empty_list :: pystr where "lit_empty_list = [91, 93]"

definition col_orig_price :: pystr where "col_orig_price = [21407, 20215]"
definition col_disc_price :: pystr where "col_disc_price = [25240, 25187, 20215]"
definition col_price :: pystr where "col_price = [20215, 26684]"
definition col_rating :: pystr where "col_rating = [22909, 35780, 29575]"
definition col_detail_rating :: pystr where
  "col_detail_rating = [35814, 32454, 22909, 35780, 29575]"
definition col_basic_rating :: pystr where
  "col_basic_rating = [22522, 26412, 22909, 35780, 29575]"
definition syn_rating :: pystr where "syn_rating = [22909, 35780]"
definition col_tags :: pystr where "col_tags = [26631, 31614, 21015, 34920]"
definition col_detail_tags :: pystr where "col_detail_tags = [35814, 32454, 26631, 31614]"
definition col_basic_tags :: pystr where "col_basic_tags = [22522, 26412, 26631, 31614]"
definition syn_tags :: pystr where "syn_tags = [26631, 31614]"
definition col_date :: pystr where "col_date = [21457, 24067, 26102, 38388]"
definition col_detail_date :: pystr where
  "col_detail_date = [35814, 32454, 21457, 24067, 26085, 26399]"
definition col_basic_date :: pystr where
  "col_basic_date = [22522, 26412, 21457, 24067, 26102, 38388]"
definition syn_release :: pystr where "syn_release = [21457, 24067]"
definition syn_date :: pystr where "syn_date = [26085, 26399]"
definition col_year :: pystr where "col_year = [21457, 24067, 24180, 20221]"

text \<open>\<open>needle in s\<close>: substring test.\<close>

fun is_prefix :: "pystr \<Rightarrow> pystr \<Rightarrow> bool" where
  "is_prefix [] s = True"
| "is_prefix (p # ps) [] = False"
| "is_prefix (p # ps) (c # cs) = (p = c \<and> is_prefix ps cs)"

fun contains :: "pystr \<Rightarrow> pystr \<Rightarrow> bool" where
  "contains needle [] = (needle = [])"
| "contains needle (c # cs) = (is_prefix needle (c # cs) \<or> contains needle cs)"

text \<open>
  \<open>str.lower()\<close>, on the ASCII letters. Python also lowers letters outside ASCII; the
  only use in the source is the test of a column name against the ASCII words
  \<open>price\<close>, \<open>rating\<close>, \<open>tag\<close>, \<open>date\<close> and \<open>release\<close>.
\<close>

definition lower_cp :: "nat \<Rightarrow> nat" where
  "lower_cp c = (if 65 \<le> c \<and> c \<le> 90 then c + 32 else c)"

definition lower :: "pystr \<Rightarrow> pystr" where
  "lower s = map lower_cp s"

text \<open>\<open>str.isspace()\<close> of one code point, and \<open>str.strip()\<close>.\<close>

definition is_space :: "nat \<Rightarrow> bool" where
  "is_space c \<longleftrightarrow>
     (9 \<le> c \<and> c \<le> 13) \<or> (28 \<le> c \<and> c \<le> 32) \<or> c = 133 \<or> c = 160 \<or> c = 5760 \<or>
     (8192 \<le> c \<and> c \<le> 8202) \<or> c = 8232 \<or> c = 8233 \<or> c = 8239 \<or> c = 8287 \<or>
     c = 12288"

definition strip :: "pystr \<Rightarrow> pystr" where
  "strip s = rev (dropWhile is_space (rev (dropWhile is_space s)))"

text \<open>\<open>s.split(',')\<close>: the pieces between the commas (code point 44), at least one.\<close>

fun split_comma :: "pystr \<Rightarrow> pystr list" where
  "split_comma [] = [[]]"
| "split_comma (c # cs) =
     (if c = 44 then [] # split_comma cs
      else (case split_comma cs of p # ps \<Rightarrow> (c # p) # ps | [] \<Rightarrow> [[c]]))"

text \<open>
  The regular expressions. \<open>\d\<close> is taken on the ASCII digits (Python's \<open>\d\<close> on a
  \<open>str\<close> pattern also accepts the decimal digits of other scripts).
\<close>

definition is_digit :: "nat \<Rightarrow> bool" where
  "is_digit c \<longleftrightarrow> 48 \<le> c \<and> c \<le> 57"

definition digits_val :: "pystr \<Rightarrow> nat" where
  "digits_val ds = foldl (\<lambda>a d. 10 * a + (d - 48)) 0 ds"

text \<open>\<open>re.search(r'\d+\.?\d*', s)\<close>: the leftmost match, each part greedy.\<close>

definition search_decimal :: "pystr \<Rightarrow> pystr option" where
  "search_decimal s =
     (let r = dropWhile (\<lambda>c. \<not> is_digit c) s in
      if r = [] then None
      else
        (let a = takeWhile is_digit r; r' = dropWhile is_digit r in
         case r' of
           [] \<Rightarrow> Some a
         | c # r'' \<Rightarrow> if c = 46 then Some (a @ [46] @ takeWhile is_digit r'') else Some a))"

text \<open>\<open>float(m)\<close> of a match of that pattern: digits, then perhaps a point and digits.\<close>

definition float_of_decimal :: "pystr \<Rightarrow> real" where
  "float_of_decimal m =
     (let a = takeWhile is_digit m; b = drop (length a + 1) m in
      real (digits_val a) + real (digits_val b) / 10 ^ length b)"

text \<open>
  \<open>re.search(r'(\d+)%', s)\<close>, its group 1: the first maximal run of digits that a
  percent sign (code point 37) follows.
\<close>

function search_percent :: "pystr \<Rightarrow> pystr option" where
  "search_percent s =
     (let r = dropWhile (\<lambda>c. \<not> is_digit c) s in
      if r = [] then None
      else
        (let a = takeWhile is_digit r; r' = dropWhile is_digit r in
         case r' of
           [] \<Rightarrow> None
         | c # r'' \<Rightarrow> if c = 37 then Some a else search_percent r''))"
  by pat_completeness auto
termination
proof (relation "measure length")
  show "wf (measure length)" by simp
next
  fix s r a r' r'' :: pystr and c :: nat
  assume r: "r = dropWhile (\<lambda>c. \<not> is_digit c) s" and r': "r' = dropWhile is_digit r"
    and c: "r' = c # r''"
  have "length r' \<le> length r" unfolding r' by (rule length_dropWhile_le)
  moreover have "length r \<le> length s" unfolding r by (rule length_dropWhile_le)
  ultimately show "(r'', s) \<in> measure length" using c by simp
qed

declare search_percent.simps [simp del]

text \<open>
  \<open>re.match(r'\d{4}-\d{1,2}-\d{1,2}', s)\<close>: anchored at the start of \<open>s\<close>, nothing
  asked of what follows (45 is the hyphen).
\<close>

definition digits_then_dash :: "pystr \<Rightarrow> pystr option" where
  "digits_then_dash s =
     (case s of
        a # b # c # r \<Rightarrow>
          if is_digit a \<and> b = 45 then Some (c # r)
          else if is_digit a \<and> is_digit b \<and> c = 45 then Some r
          else None
      | [a, b] \<Rightarrow> if is_digit a \<and> b = 45 then Some [] else None
      | _ \<Rightarrow> None)"

definition match_ymd :: "pystr \<Rightarrow> bool" where
  "match_ymd s \<longleftrightarrow>
     (case s of
        a # b # c # d # e # r \<Rightarrow>
          is_digit a \<and> is_digit b \<and> is_digit c \<and> is_digit d \<and> e = 45 \<and>
          (case digits_then_dash r of
             Some (f # r') \<Rightarrow> is_digit f
           | _ \<Rightarrow> False)
      | _ \<Rightarrow> False)"

text \<open>\<open>re.search(r'(\d{4})', s)\<close>: the leftmost four digits in a row.\<close>

fun search_year :: "pystr \<Rightarrow> pystr option" where
  "search_year (a # b # c # d # r) =
     (if is_digit a \<and> is_digit b \<and> is_digit c \<and> is_digit d then Some [a, b, c, d]
      else search_year (b # c # d # r))"
| "search_year s = None"

section \<open>Cell values and the field parsers\<close>

text \<open>
  The values a DataFrame cell can hold here: a missing value (\<open>NaN\<close>, \<open>None\<close>, \<open>NaT\<close>: all
  of them are what \<open>pd.isna\<close> accepts), a string, an integer, a float (as a real number: the
  rounding of floating point is not modelled), a boolean; and, in a frame that
  \<open>clean_data\<close> has produced, a list of tags or a timestamp.
\<close>

datatype timestamp = Timestamp (ts_year: int) (ts_month: nat) (ts_day: nat)

datatype cell =
    CNull
  | CStr pystr
  | CInt int
  | CFloat real
  | CBool bool
  | CList "pystr list"
  | CTime timestamp

text \<open>The cells of a record set as it is read from a CSV file.\<close>

fun raw_cell :: "cell \<Rightarrow> bool" where
  "raw_cell (CList ts) = False"
| "raw_cell (CTime t) = False"
| "raw_cell c = True"

datatype error = ValueError | AttributeError | TypeError

text \<open>
  What the source takes from Python, NumPy and pandas without this development fixing it:
  \<^item> \<open>float_str\<close>, \<open>list_str\<close>, \<open>time_str\<close>: \<open>str(v)\<close> of a float, a list and a timestamp;
  \<^item> \<open>to_datetime\<close>: \<open>pd.to_datetime(v)\<close>, \<open>None\<close> when it raises;
  \<^item> \<open>empty_truth\<close>: the truth value of an empty array, \<open>None\<close> when it raises (as NumPy
    does from version 2.2 on).
  Every function below takes them as the parameter \<open>L\<close>.
\<close>

record pylib =
  float_str :: "real \<Rightarrow> pystr"
  list_str :: "pystr list \<Rightarrow> pystr"
  time_str :: "timestamp \<Rightarrow> pystr"
  to_datetime :: "cell \<Rightarrow> timestamp option"
  empty_truth :: "bool option"

text \<open>\<open>str(n)\<close> of an integer.\<close>

fun nat_digits :: "nat \<Rightarrow> pystr" where
  "nat_digits n = (if n < 10 then [48 + n] else nat_digits (n div 10) @ [48 + n mod 10])"

declare nat_digits.simps [simp del]

definition int_str :: "int \<Rightarrow> pystr" where
  "int_str i = (if i < 0 then 45 # nat_digits (nat (- i)) else nat_digits (nat i))"

definition py_str :: "pylib \<Rightarrow> cell \<Rightarrow> pystr" where
  "py_str L c =
     (case c of
        CNull \<Rightarrow> u ''nan''
      | CStr s \<Rightarrow> s
      | CInt i \<Rightarrow> int_str i
      | CFloat x \<Rightarrow> float_str L x
      | CBool b \<Rightarrow> (if b then u ''True'' else u ''False'')
      | CList ts \<Rightarrow> list_str L ts
      | CTime t \<Rightarrow> time_str L t)"

text \<open>
  \<open>pd.isna(v) or ...\<close>: the truth value of \<open>pd.isna(v)\<close>. On a list \<open>pd.isna\<close> returns an
  array, one entry per element (no tag is missing); the truth value of an array of two
  or more entries raises \<open>ValueError\<close>.
\<close>

definition isna_truth :: "pylib \<Rightarrow> cell \<Rightarrow> error + bool" where
  "isna_truth L c =
     (case c of
        CNull \<Rightarrow> Inr True
      | CList ts \<Rightarrow>
          (case ts of
             [] \<Rightarrow> (case empty_truth L of None \<Rightarrow> Inl ValueError | Some b \<Rightarrow> Inr b)
           | [t] \<Rightarrow> Inr False
           | _ \<Rightarrow> Inl ValueError)
      | _ \<Rightarrow> Inr False)"

text \<open>\<open>v == "..."\<close>: only a string equals a string.\<close>

definition eq_str :: "cell \<Rightarrow> pystr \<Rightarrow> bool" where
  "eq_str c s = (case c of CStr t \<Rightarrow> t = s | _ \<Rightarrow> False)"

definition clean_price :: "pylib \<Rightarrow> cell \<Rightarrow> error + real" where
  "clean_price L price =
     (case isna_truth L price of
        Inl e \<Rightarrow> Inl e
      | Inr na \<Rightarrow>
          if na \<or> eq_str price lit_unknown \<or> eq_str price lit_free then Inr 0
          else
            (case search_decimal (py_str L price) of
               Some m \<Rightarrow> Inr (float_of_decimal m)
             | None \<Rightarrow> Inr 0))"

text \<open>A rating is \<open>None\<close> where the source returns \<open>np.nan\<close>.\<close>

definition clean_rating :: "pylib \<Rightarrow> cell \<Rightarrow> error + real option" where
  "clean_rating L rating =
     (case isna_truth L rating of
        Inl e \<Rightarrow> Inl e
      | Inr na \<Rightarrow>
          if na \<or> eq_str rating lit_unknown then Inr None
          else
            (case rating of
               CStr s \<Rightarrow>
                 (if contains [37] s then
                    (case search_percent s of
                       Some m \<Rightarrow> Inr (Some (real (digits_val m)))
                     | None \<Rightarrow> Inr None)
                  else Inr None)
             | CInt i \<Rightarrow> Inr (Some (real_of_int i))
             | CFloat x \<Rightarrow> Inr (Some x)
             | CBool b \<Rightarrow> Inr (Some (if b then 1 else 0))
             | _ \<Rightarrow> Inr None))"

text \<open>
  \<open>clean_tags\<close>: the four \<open>replace\<close> calls delete every bracket and quote (code points 91,
  93, 39, 34); the pieces of the split are stripped and all of them are kept.
\<close>

definition remove_brackets_quotes :: "pystr \<Rightarrow> pystr" where
  "remove_brackets_quotes s = filter (\<lambda>c. c \<noteq> 91 \<and> c \<noteq> 93 \<and> c \<noteq> 39 \<and> c \<noteq> 34) s"

definition clean_tags :: "pylib \<Rightarrow> cell \<Rightarrow> error + pystr list" where
  "clean_tags L tags =
     (case isna_truth L tags of
        Inl e \<Rightarrow> Inl e
      | Inr na \<Rightarrow>
          if na \<or> eq_str tags lit_unknown \<or> eq_str tags lit_empty_list then Inr []
          else
            (case tags of
               CStr s \<Rightarrow>
                 (let t = remove_brackets_quotes s in
                  if t \<noteq> [] then Inr (map strip (split_comma t)) else Inr [])
             | _ \<Rightarrow> Inr []))"

text \<open>
  \<open>clean_date\<close>: the test of \<open>pd.isna\<close> stands before the \<open>try\<close>; inside it an exception of
  \<open>pd.to_datetime\<close> gives \<open>np.nan\<close>.
\<close>

definition clean_date :: "pylib \<Rightarrow> cell \<Rightarrow> error + timestamp option" where
  "clean_date L date =
     (case isna_truth L date of
        Inl e \<Rightarrow> Inl e
      | Inr na \<Rightarrow>
          if na \<or> eq_str date lit_unknown then Inr None
          else if match_ymd (py_str L date) then Inr (to_datetime L date)
          else
            (case search_year (py_str L date) of
               Some y \<Rightarrow> Inr (to_datetime L (CStr y))
             | None \<Rightarrow> Inr None))"

section \<open>DataFrames\<close>

text \<open>
  A column holds its cells and whether pandas stores it as \<open>datetime64\<close>: the \<open>.dt\<close>
  accessor raises \<open>AttributeError\<close> on any other column. A frame has a number of rows
  (its index) and its columns in their order.
\<close>

record series =
  is_datetime :: bool
  cells :: "cell list"

record frame =
  nrows :: nat
  columns :: "(pystr \<times> series) list"

definition col_names :: "frame \<Rightarrow> pystr list" where
  "col_names df = map fst (columns df)"

definition has_col :: "frame \<Rightarrow> pystr \<Rightarrow> bool" where
  "has_col df c \<longleftrightarrow> c \<in> set (col_names df)"

definition get_col :: "frame \<Rightarrow> pystr \<Rightarrow> series" where
  "get_col df c = (case map_of (columns df) c of Some s \<Rightarrow> s
                   | None \<Rightarrow> \<lparr>is_datetime = False, cells = []\<rparr>)"

text \<open>\<open>df[c] = s\<close>: an existing column is replaced where it stands, a new one comes last.\<close>

fun update_col :: "pystr \<Rightarrow> 'a \<Rightarrow> (pystr \<times> 'a) list \<Rightarrow> (pystr \<times> 'a) list" where
  "update_col c s [] = [(c, s)]"
| "update_col c s (p # ps) = (if fst p = c then (c, s) # ps else p # update_col c s ps)"

definition set_col :: "frame \<Rightarrow> pystr \<Rightarrow> series \<Rightarrow> frame" where
  "set_col df c s = df\<lparr>columns := update_col c s (columns df)\<rparr>"

text \<open>
  The column that the \<open>Series\<close> constructor builds from a list of results: it is
  \<open>datetime64\<close> when it holds a timestamp and nothing but timestamps and missing values.
\<close>

fun is_time :: "cell \<Rightarrow> bool" where
  "is_time (CTime t) = True"
| "is_time c = False"

definition infer_datetime :: "cell list \<Rightarrow> bool" where
  "infer_datetime cs \<longleftrightarrow> list_ex is_time cs \<and> list_all (\<lambda>c. is_time c \<or> c = CNull) cs"

definition mk_series :: "cell list \<Rightarrow> series" where
  "mk_series cs = \<lparr>is_datetime = infer_datetime cs, cells = cs\<rparr>"

text \<open>\<open>df[c] = v\<close> with a scalar \<open>v\<close>: one copy in each row.\<close>

definition const_series :: "frame \<Rightarrow> cell \<Rightarrow> series" where
  "const_series df v = mk_series (replicate (nrows df) v)"

text \<open>\<open>Series.apply(f)\<close>: \<open>f\<close> on each cell in row order; the first exception ends it.\<close>

fun mapE :: "('a \<Rightarrow> error + 'b) \<Rightarrow> 'a list \<Rightarrow> error + 'b list" where
  "mapE f [] = Inr []"
| "mapE f (x # xs) =
     (case f x of
        Inl e \<Rightarrow> Inl e
      | Inr y \<Rightarrow> (case mapE f xs of Inl e \<Rightarrow> Inl e | Inr ys \<Rightarrow> Inr (y # ys)))"

definition apply_series :: "(cell \<Rightarrow> error + cell) \<Rightarrow> series \<Rightarrow> error + series" where
  "apply_series f s = (case mapE f (cells s) of Inl e \<Rightarrow> Inl e | Inr cs \<Rightarrow> Inr (mk_series cs))"

text \<open>\<open>a.fillna(b)\<close>: the cell of \<open>b\<close> where the cell of \<open>a\<close> is missing.\<close>

definition fillna :: "series \<Rightarrow> series \<Rightarrow> series" where
  "fillna a b = a\<lparr>cells := map (\<lambda>(x, y). if x = CNull then y else x) (zip (cells a) (cells b))\<rparr>"

text \<open>
  \<open>df.loc[mask, c] = df.loc[mask, b].apply(f)\<close>: \<open>f\<close> runs on the rows of \<open>b\<close> that the
  mask selects, and its results replace the cells of \<open>c\<close> in those rows. When the mask
  selects every row, pandas (1.5 to 2.2) puts the new values in as a new column, which
  takes its type from them; otherwise the column keeps its type.
\<close>

fun merge_rows :: "bool list \<Rightarrow> cell list \<Rightarrow> cell list \<Rightarrow> cell list" where
  "merge_rows (True # m) (v # vs) (r # rs) = r # merge_rows m vs rs"
| "merge_rows (False # m) (v # vs) rs = v # merge_rows m vs rs"
| "merge_rows m vs rs = []"

definition loc_assign ::
  "(cell \<Rightarrow> error + cell) \<Rightarrow> bool list \<Rightarrow> series \<Rightarrow> series \<Rightarrow> error + series" where
  "loc_assign f sel c b =
     (case mapE f (map snd (filter fst (zip sel (cells b)))) of
        Inl e \<Rightarrow> Inl e
      | Inr rs \<Rightarrow>
          Inr \<lparr>is_datetime =
                 (if sel \<noteq> [] \<and> list_all (\<lambda>x. x) sel then infer_datetime rs
                  else is_datetime c),
               cells = merge_rows sel (cells c) rs\<rparr>)"

text \<open>The cells that the parsers put into the frame.\<close>

definition price_cell :: "pylib \<Rightarrow> cell \<Rightarrow> error + cell" where
  "price_cell L c = (case clean_price L c of Inl e \<Rightarrow> Inl e | Inr x \<Rightarrow> Inr (CFloat x))"

definition rating_cell :: "pylib \<Rightarrow> cell \<Rightarrow> error + cell" where
  "rating_cell L c =
     (case clean_rating L c of
        Inl e \<Rightarrow> Inl e
      | Inr None \<Rightarrow> Inr CNull
      | Inr (Some x) \<Rightarrow> Inr (CFloat x))"

definition tags_cell :: "pylib \<Rightarrow> cell \<Rightarrow> error + cell" where
  "tags_cell L c = (case clean_tags L c of Inl e \<Rightarrow> Inl e | Inr ts \<Rightarrow> Inr (CList ts))"

definition date_cell :: "pylib \<Rightarrow> cell \<Rightarrow> error + cell" where
  "date_cell L c =
     (case clean_date L c of
        Inl e \<Rightarrow> Inl e
      | Inr None \<Rightarrow> Inr CNull
      | Inr (Some t) \<Rightarrow> Inr (CTime t))"

section \<open>\<open>clean_data\<close>\<close>

text \<open>
  Each block of \<open>clean_data\<close> is a function from the frame to the warnings it shows
  (\<open>st.warning\<close>) and either the exception it raises or the frame it leaves.
\<close>

datatype notice = NoPriceColumn | NoRatingColumn | NoTagsColumn | NoDateColumn

type_synonym outcome = "notice list \<times> (error + frame)"

text \<open>\<open>df[dst] = df[src].apply(f)\<close>\<close>

definition apply_col :: "(cell \<Rightarrow> error + cell) \<Rightarrow> pystr \<Rightarrow> pystr \<Rightarrow> frame \<Rightarrow> error + frame" where
  "apply_col f src dst df =
     (case apply_series f (get_col df src) of
        Inl e \<Rightarrow> Inl e
      | Inr s \<Rightarrow> Inr (set_col df dst s))"

text \<open>\<open>df.loc[sel, dst] = df.loc[sel, src].apply(f)\<close>, the selection computed from \<open>dst\<close>.\<close>

definition fill_col ::
  "(cell \<Rightarrow> error + cell) \<Rightarrow> (cell \<Rightarrow> error + bool) \<Rightarrow> pystr \<Rightarrow> pystr \<Rightarrow> frame \<Rightarrow> error + frame"
  where
  "fill_col f sel_of src dst df =
     (case mapE sel_of (cells (get_col df dst)) of
        Inl e \<Rightarrow> Inl e
      | Inr sel \<Rightarrow>
          (case loc_assign f sel (get_col df dst) (get_col df src) of
             Inl e \<Rightarrow> Inl e
           | Inr s \<Rightarrow> Inr (set_col df dst s)))"

text \<open>\<open>Series.isna()\<close>, and \<open>lambda x: len(x) == 0\<close>, which raises on a cell without length.\<close>

definition cell_isna :: "cell \<Rightarrow> error + bool" where
  "cell_isna c = Inr (c = CNull)"

definition cell_len0 :: "cell \<Rightarrow> error + bool" where
  "cell_len0 c =
     (case c of
        CList ts \<Rightarrow> Inr (ts = [])
      | CStr s \<Rightarrow> Inr (s = [])
      | _ \<Rightarrow> Inl TypeError)"

text \<open>The synonym tests of the four fields, each on one column name.\<close>

definition price_syn :: "pystr \<Rightarrow> bool" where
  "price_syn col \<longleftrightarrow> contains col_price col \<or> contains (u ''price'') (lower col)"

definition rating_syn :: "pystr \<Rightarrow> bool" where
  "rating_syn col \<longleftrightarrow> contains syn_rating col \<or> contains (u ''rating'') (lower col)"

definition tags_syn :: "pystr \<Rightarrow> bool" where
  "tags_syn col \<longleftrightarrow> contains syn_tags col \<or> contains (u ''tag'') (lower col)"

definition date_syn :: "pystr \<Rightarrow> bool" where
  "date_syn col \<longleftrightarrow>
     contains syn_release col \<or> contains syn_date col \<or> contains (u ''date'') (lower col) \<or>
     contains (u ''release'') (lower col)"

text \<open>
  The last branch of every block: the first column, in the order of the frame, whose name
  passes the test; without one, the default in every row and a warning.
\<close>

definition scan_or_default ::
  "(cell \<Rightarrow> error + cell) \<Rightarrow> (pystr \<Rightarrow> bool) \<Rightarrow> pystr \<Rightarrow> cell \<Rightarrow> notice \<Rightarrow> frame \<Rightarrow> outcome"
  where
  "scan_or_default f syn dst dflt n df =
     (case find syn (col_names df) of
        Some c \<Rightarrow> ([], apply_col f c dst df)
      | None \<Rightarrow> ([n], Inr (set_col df dst (const_series df dflt))))"

text \<open>Block 1, the price.\<close>

definition price_step :: "pylib \<Rightarrow> frame \<Rightarrow> outcome" where
  "price_step L df =
     (case (if has_col df col_orig_price
            then apply_col (price_cell L) col_orig_price col_orig_price df else Inr df) of
        Inl e \<Rightarrow> ([], Inl e)
      | Inr df1 \<Rightarrow>
          (case (if has_col df1 col_disc_price
                 then apply_col (price_cell L) col_disc_price col_disc_price df1 else Inr df1) of
             Inl e \<Rightarrow> ([], Inl e)
           | Inr df2 \<Rightarrow>
               if has_col df2 col_disc_price \<and> has_col df2 col_orig_price then
                 ([], Inr (set_col df2 col_price
                             (fillna (get_col df2 col_disc_price) (get_col df2 col_orig_price))))
               else if has_col df2 col_disc_price then
                 ([], Inr (set_col df2 col_price (get_col df2 col_disc_price)))
               else if has_col df2 col_orig_price then
                 ([], Inr (set_col df2 col_price (get_col df2 col_orig_price)))
               else scan_or_default (price_cell L) price_syn col_price (CFloat 0)
                      NoPriceColumn df2))"

text \<open>
  Blocks 2 to 4 have one shape: an \<open>if\<close> for the detailed column, then a separate
  \<open>if/elif/else\<close> whose first test asks for the basic column and the target column.
\<close>

definition field_step ::
  "(cell \<Rightarrow> error + cell) \<Rightarrow> (cell \<Rightarrow> error + bool) \<Rightarrow> (pystr \<Rightarrow> bool) \<Rightarrow>
   pystr \<Rightarrow> pystr \<Rightarrow> pystr \<Rightarrow> cell \<Rightarrow> notice \<Rightarrow> frame \<Rightarrow> outcome" where
  "field_step f sel_of syn detail basic dst dflt n df =
     (case (if has_col df detail then apply_col f detail dst df else Inr df) of
        Inl e \<Rightarrow> ([], Inl e)
      | Inr df1 \<Rightarrow>
          if has_col df1 basic \<and> has_col df1 dst then ([], fill_col f sel_of basic dst df1)
          else if has_col df1 basic then ([], apply_col f basic dst df1)
          else scan_or_default f syn dst dflt n df1)"

definition rating_step :: "pylib \<Rightarrow> frame \<Rightarrow> outcome" where
  "rating_step L =
     field_step (rating_cell L) cell_isna rating_syn col_detail_rating col_basic_rating
       col_rating CNull NoRatingColumn"

definition tags_step :: "pylib \<Rightarrow> frame \<Rightarrow> outcome" where
  "tags_step L =
     field_step (tags_cell L) cell_len0 tags_syn col_detail_tags col_basic_tags
       col_tags (CList []) NoTagsColumn"

definition date_step :: "pylib \<Rightarrow> frame \<Rightarrow> outcome" where
  "date_step L =
     field_step (date_cell L) cell_isna date_syn col_detail_date col_basic_date
       col_date CNull NoDateColumn"

text \<open>
  The last block: \<open>df[year] = df[date].dt.year\<close>. The years are integers, or floats when
  a date is missing.
\<close>

definition year_cell :: "bool \<Rightarrow> cell \<Rightarrow> cell" where
  "year_cell missing c =
     (case c of
        CTime t \<Rightarrow> (if missing then CFloat (real_of_int (ts_year t)) else CInt (ts_year t))
      | _ \<Rightarrow> CNull)"

definition dt_year :: "series \<Rightarrow> error + series" where
  "dt_year s =
     (if is_datetime s
      then Inr (mk_series (map (year_cell (CNull \<in> set (cells s))) (cells s)))
      else Inl AttributeError)"

definition year_step :: "frame \<Rightarrow> outcome" where
  "year_step df =
     (if has_col df col_date then
        (case dt_year (get_col df col_date) of
           Inl e \<Rightarrow> ([], Inl e)
         | Inr s \<Rightarrow> ([], Inr (set_col df col_year s)))
      else ([], Inr df))"

text \<open>Running the blocks in order: an exception ends the run, the warnings shown stay.\<close>

definition and_then :: "outcome \<Rightarrow> (frame \<Rightarrow> outcome) \<Rightarrow> outcome" where
  "and_then r f =
     (case r of
        (ns, Inl e) \<Rightarrow> (ns, Inl e)
      | (ns, Inr df) \<Rightarrow> (case f df of (ns', r') \<Rightarrow> (ns @ ns', r')))"

definition clean_frame :: "pylib \<Rightarrow> frame \<Rightarrow> outcome" where
  "clean_frame L df =
     and_then (and_then (and_then (and_then (price_step L df) (rating_step L)) (tags_step L))
       (date_step L)) year_step"

text \<open>
  \<open>clean_data(df)\<close> itself. The argument is a reference to a frame that the caller holds
  too, so the frames live in a store and \<open>df\<close> is an address. The first statement,
  \<open>df = df.copy()\<close>, allocates a new frame; every block then writes to the frame that
  \<open>df\<close> now names.
\<close>

type_synonym store = "frame list"

definition copy_frame :: "store \<Rightarrow> nat \<Rightarrow> store \<times> nat" where
  "copy_frame h a = (h @ [h ! a], length h)"

definition run_block :: "(frame \<Rightarrow> outcome) \<Rightarrow> nat \<Rightarrow> store \<times> notice list \<times> (error + unit) \<Rightarrow>
    store \<times> notice list \<times> (error + unit)" where
  "run_block f a st =
     (case st of
        (h, ns, Inl e) \<Rightarrow> (h, ns, Inl e)
      | (h, ns, Inr x) \<Rightarrow>
          (case f (h ! a) of
             (ns', Inl e) \<Rightarrow> (h, ns @ ns', Inl e)
           | (ns', Inr df) \<Rightarrow> (h[a := df], ns @ ns', Inr ())))"

definition clean_data :: "pylib \<Rightarrow> store \<Rightarrow> nat \<Rightarrow> store \<times> notice list \<times> (error + nat)" where
  "clean_data L h a =
     (case copy_frame h a of
        (h0, df) \<Rightarrow>
          (case run_block year_step df (run_block (date_step L) df (run_block (tags_step L) df
                  (run_block (rating_step L) df (run_block (price_step L) df (h0, [], Inr ()))))) of
             (h', ns, Inl e) \<Rightarrow> (h', ns, Inl e)
           | (h', ns, Inr x) \<Rightarrow> (h', ns, Inr df)))"

section \<open>A reference library and raw frames\<close>

text \<open>
  The theorems below that speak of all inputs hold for every library \<open>L\<close>. The ones
  evaluated on a concrete frame use \<open>ref_lib\<close>, which gives CPython's and pandas' answers
  on the arguments met there:
  \<^item> \<open>str\<close> of a float in positional notation with a finite expansion (\<open>0.0\<close>, \<open>49.99\<close>);
  \<^item> \<open>str\<close> of a list of strings free of quotes and backslashes (\<open>['Action', 'Indie']\<close>);
  \<^item> \<open>str\<close> of a timestamp at midnight (\<open>2021-03-15 00:00:00\<close>);
  \<^item> \<open>pd.to_datetime\<close> of a timestamp, of an ISO date \<open>YYYY-MM-DD\<close> and of a year \<open>YYYY\<close>
    inside the range of \<open>datetime64[ns]\<close>; every other argument is given \<open>None\<close> here.
\<close>

fun frac_digits :: "nat \<Rightarrow> real \<Rightarrow> pystr" where
  "frac_digits 0 x = []"
| "frac_digits (Suc n) x =
     (if x = 0 then []
      else (let d = nat \<lfloor>10 * x\<rfloor> in (48 + d) # frac_digits n (10 * x - real d)))"

definition ref_float_str :: "real \<Rightarrow> pystr" where
  "ref_float_str x =
     (let a = \<bar>x\<bar>; i = nat \<lfloor>a\<rfloor>; fd = frac_digits 17 (a - real i) in
      (if x < 0 then [45] else []) @ nat_digits i @ [46] @ (if fd = [] then [48] else fd))"

fun join_comma :: "pystr list \<Rightarrow> pystr" where
  "join_comma [] = []"
| "join_comma [s] = s"
| "join_comma (s # ss) = s @ [44, 32] @ join_comma ss"

definition ref_list_str :: "pystr list \<Rightarrow> pystr" where
  "ref_list_str ts = [91] @ join_comma (map (\<lambda>t. [39] @ t @ [39]) ts) @ [93]"

definition pad2 :: "nat \<Rightarrow> pystr" where
  "pad2 n = (if n < 10 then 48 # nat_digits n else nat_digits n)"

definition pad4 :: "nat \<Rightarrow> pystr" where
  "pad4 n = replicate (4 - length (nat_digits n)) 48 @ nat_digits n"

definition ref_time_str :: "timestamp \<Rightarrow> pystr" where
  "ref_time_str t =
     pad4 (nat (ts_year t)) @ [45] @ pad2 (ts_month t) @ [45] @ pad2 (ts_day t) @ u '' 00:00:00''"

definition days_in_month :: "int \<Rightarrow> nat \<Rightarrow> nat" where
  "days_in_month y m =
     (if m = 2 then (if y mod 4 = 0 \<and> (y mod 100 \<noteq> 0 \<or> y mod 400 = 0) then 29 else 28)
      else if m = 4 \<or> m = 6 \<or> m = 9 \<or> m = 11 then 30 else 31)"

definition ref_parse_date :: "pystr \<Rightarrow> timestamp option" where
  "ref_parse_date s =
     (let y = int (digits_val (take 4 s)) in
      if length s = 4 \<and> list_all is_digit s \<and> 1678 \<le> y \<and> y \<le> 2261
      then Some (Timestamp y 1 1)
      else if length s = 10 \<and> list_all is_digit (take 4 s) \<and> s ! 4 = 45 \<and>
              list_all is_digit (take 2 (drop 5 s)) \<and> s ! 7 = 45 \<and>
              list_all is_digit (drop 8 s) \<and> 1678 \<le> y \<and> y \<le> 2261
      then
        (let m = digits_val (take 2 (drop 5 s)); d = digits_val (drop 8 s) in
         if 1 \<le> m \<and> m \<le> 12 \<and> 1 \<le> d \<and> d \<le> days_in_month y m
         then Some (Timestamp y m d) else None)
      else None)"

definition ref_to_datetime :: "cell \<Rightarrow> timestamp option" where
  "ref_to_datetime c = (case c of CTime t \<Rightarrow> Some t | CStr s \<Rightarrow> ref_parse_date s | _ \<Rightarrow> None)"

definition ref_lib :: pylib where
  "ref_lib =
     \<lparr>float_str = ref_float_str, list_str = ref_list_str, time_str = ref_time_str,
      to_datetime = ref_to_datetime, empty_truth = None\<rparr>"

text \<open>
  A frame as \<open>pd.read_csv\<close> returns it: \<open>n\<close> rows, no column of type \<open>datetime64\<close>.
\<close>

definition csv_frame :: "nat \<Rightarrow> (pystr \<times> cell list) list \<Rightarrow> frame" where
  "csv_frame n cs =
     \<lparr>nrows = n, columns = map (\<lambda>(c, vs). (c, \<lparr>is_datetime = False, cells = vs\<rparr>)) cs\<rparr>"

text \<open>The cells of one column of the frame that a run leaves, or the exception of the run.\<close>

definition column_of :: "outcome \<Rightarrow> pystr \<Rightarrow> error + cell list" where
  "column_of r c = (case snd r of Inl e \<Rightarrow> Inl e | Inr df \<Rightarrow> Inr (cells (get_col df c)))"

section \<open>The analytics\<close>

text \<open>
  The plotting functions read the columns of price, rating and tag list of the frame
  they are given. A row of these three columns is a \<open>game\<close>: its position in the frame,
  its price and its rating (\<open>None\<close> for \<open>NaN\<close>) and its tags.
\<close>

record game =
  row_id :: nat
  price :: "real option"
  rating :: "real option"
  tags :: "pystr list"

text \<open>
  \<open>df.dropna(subset=[price, rating])\<close> and then \<open>valid_data[valid_data[price] > 0]\<close>, the
  first two statements of \<open>plot_rating_price_correlation\<close> and of
  \<open>find_high_value_games\<close>.
\<close>

definition dropna :: "game list \<Rightarrow> game list" where
  "dropna df = filter (\<lambda>g. price g \<noteq> None \<and> rating g \<noteq> None) df"

definition price_of :: "game \<Rightarrow> real" where
  "price_of g = (case price g of Some p \<Rightarrow> p | None \<Rightarrow> 0)"

definition rating_of :: "game \<Rightarrow> real" where
  "rating_of g = (case rating g of Some r \<Rightarrow> r | None \<Rightarrow> 0)"

definition valid_data :: "game list \<Rightarrow> game list" where
  "valid_data df = filter (\<lambda>g. 0 < price_of g) (dropna df)"

text \<open>
  \<open>Series.corr\<close> and \<open>Series.mean\<close> are functions of pandas, which compute in 64-bit
  floating point. The analytics take them as the parameters \<open>corr\<close> and \<open>series_mean\<close>;
  \<open>corr\<close> returns \<open>None\<close> for \<open>NaN\<close>.

  \<open>mean\<close> and \<open>pearson\<close> are the same two quantities over the real numbers, without the
  rounding of floating point: they stand for the library where a statement is about one
  concrete frame. \<open>pearson\<close> is \<open>None\<close> (\<open>NaN\<close>) for fewer than two points and for a
  column without variance, as \<open>Series.corr\<close> is.
\<close>

definition mean :: "real list \<Rightarrow> real" where
  "mean xs = sum_list xs / real (length xs)"

definition pearson :: "real list \<Rightarrow> real list \<Rightarrow> real option" where
  "pearson xs ys =
     (let mx = mean xs; my = mean ys;
          sxx = sum_list (map (\<lambda>x. (x - mx)\<^sup>2) xs);
          syy = sum_list (map (\<lambda>y. (y - my)\<^sup>2) ys);
          sxy = sum_list (map (\<lambda>(x, y). (x - mx) * (y - my)) (zip xs ys))
      in if length xs < 2 \<or> sxx = 0 \<or> syy = 0 then None else Some (sxy / sqrt (sxx * syy)))"

text \<open>
  \<open>plot_rating_price_correlation\<close> returns \<open>(None, 0)\<close> when no valid row is left, and
  the figure with the coefficient otherwise.
\<close>

datatype corr_result = NoData | Coefficient "real option"

definition plot_rating_price_correlation ::
  "(real list \<Rightarrow> real list \<Rightarrow> real option) \<Rightarrow> game list \<Rightarrow> corr_result" where
  "plot_rating_price_correlation corr df =
     (let valid = valid_data df in
      if valid = [] then NoData
      else Coefficient (corr (map price_of valid) (map rating_of valid)))"

text \<open>
  For the statements, the selection as the specification words it: the pairs of price
  and rating of the records that have a price and a rating, with a price above zero,
  in the order of the records.
\<close>

fun spec_price_rating_pairs :: "game list \<Rightarrow> (real \<times> real) list" where
  "spec_price_rating_pairs [] = []"
| "spec_price_rating_pairs (g # gs) =
     (case price g of
        None \<Rightarrow> spec_price_rating_pairs gs
      | Some p \<Rightarrow>
          (case rating g of
             None \<Rightarrow> spec_price_rating_pairs gs
           | Some r \<Rightarrow>
               if 0 < p then (p, r) # spec_price_rating_pairs gs
               else spec_price_rating_pairs gs))"

text \<open>
  The chain of comparisons in \<open>main\<close>. Every comparison with \<open>NaN\<close> is false, so \<open>NaN\<close>
  reaches the last branch.
\<close>

datatype band = StrongPos | ModeratePos | WeakPos | WeakNeg | ModerateNeg | StrongNeg

definition corr_band :: "real option \<Rightarrow> band" where
  "corr_band corr =
     (case corr of
        None \<Rightarrow> StrongNeg
      | Some c \<Rightarrow>
          if c > 5 / 10 then StrongPos
          else if c > 3 / 10 then ModeratePos
          else if c > 0 then WeakPos
          else if c > - (3 / 10) then WeakNeg
          else if c > - (5 / 10) then ModerateNeg
          else StrongNeg)"

text \<open>
  \<open>plot_tags_bar\<close>. The comprehension \<open>[tag for tags in df[col] for tag in tags if tag]\<close>
  flattens the tag lists and leaves out the empty strings. \<open>Counter\<close> is a dictionary:
  a new key goes last, a known key keeps its place. \<open>most_common(n)\<close> is
  \<open>heapq.nlargest(n, items, key=count)\<close>, which Python documents as
  \<open>sorted(items, key=count, reverse=True)[:n]\<close>, a stable sort.
\<close>

definition all_tags :: "game list \<Rightarrow> pystr list" where
  "all_tags df = concat (map (\<lambda>g. filter (\<lambda>t. t \<noteq> []) (tags g)) df)"

fun incr :: "pystr \<Rightarrow> (pystr \<times> nat) list \<Rightarrow> (pystr \<times> nat) list" where
  "incr t [] = [(t, 1)]"
| "incr t (kv # kvs) = (if fst kv = t then (t, Suc (snd kv)) # kvs else kv # incr t kvs)"

definition counter :: "pystr list \<Rightarrow> (pystr \<times> nat) list" where
  "counter xs = foldl (\<lambda>d t. incr t d) [] xs"

definition most_common :: "nat \<Rightarrow> (pystr \<times> nat) list \<Rightarrow> (pystr \<times> nat) list" where
  "most_common n d = take n (sort_key (\<lambda>kv. - int (snd kv)) d)"

definition plot_tags_bar :: "game list \<Rightarrow> (pystr \<times> nat) list option" where
  "plot_tags_bar df =
     (if all_tags df = [] then None else Some (most_common 20 (counter (all_tags df))))"

text \<open>For the statements: the distinct elements in the order of their first occurrence,
  the place of the first occurrence, and the count that a dictionary holds for a key.\<close>

fun firsts :: "pystr list \<Rightarrow> pystr list" where
  "firsts [] = []"
| "firsts (x # xs) = x # filter (\<lambda>y. y \<noteq> x) (firsts xs)"

definition first_pos :: "pystr list \<Rightarrow> pystr \<Rightarrow> nat" where
  "first_pos xs t = length (takeWhile (\<lambda>x. x \<noteq> t) xs)"

definition cnt :: "(pystr \<times> nat) list \<Rightarrow> pystr \<Rightarrow> nat" where
  "cnt d t = (case map_of d t of Some n \<Rightarrow> n | None \<Rightarrow> 0)"

text \<open>
  \<open>find_high_value_games\<close>. It returns \<open>(None, None)\<close> when no valid row is left, and the
  figure with the selected rows otherwise. The threshold of the price is the
  \<open>mean_price\<close> of the caller, or \<open>valid_data[price].mean()\<close>.

  The rows are ordered by \<open>sort_values(by=rating, ascending=False)\<close>, called without
  \<open>kind\<close>. For one key pandas computes the order with \<open>nargsort\<close>: no rating is missing
  here, so it reverses the ratings and their positions, calls
  \<open>argsort(kind='quicksort')\<close> of NumPy on the reversed ratings, and reverses the result.
  \<open>argsort\<close> is a parameter.
\<close>

definition nargsort :: "(real list \<Rightarrow> nat list) \<Rightarrow> real list \<Rightarrow> nat list" where
  "nargsort argsort items =
     (let idx = [0..<length items];
          non_nans = rev items;
          non_nan_idx = rev idx;
          indexer = map (\<lambda>i. non_nan_idx ! i) (argsort non_nans)
      in rev indexer)"

definition sort_values :: "(real list \<Rightarrow> nat list) \<Rightarrow> game list \<Rightarrow> game list" where
  "sort_values argsort df = map (\<lambda>i. df ! i) (nargsort argsort (map rating_of df))"

definition find_high_value_games ::
  "(real list \<Rightarrow> real) \<Rightarrow> (real list \<Rightarrow> nat list) \<Rightarrow> game list \<Rightarrow> real option \<Rightarrow>
   game list option" where
  "find_high_value_games series_mean argsort df mean_price =
     (let valid = valid_data df in
      if valid = [] then None
      else
        (let mean_price =
               (case mean_price of None \<Rightarrow> series_mean (map price_of valid) | Some m \<Rightarrow> m);
             rating_threshold = 85;
             price_threshold = mean_price;
             high_value_games =
               filter (\<lambda>g. rating_threshold \<le> rating_of g \<and> price_of g \<le> price_threshold) valid
         in Some (sort_values argsort high_value_games)))"

text \<open>
  What NumPy promises of \<open>argsort\<close>: the result holds every position of the array once,
  and reading the array in this order gives ascending values. NumPy documents
  \<open>quicksort\<close> as not stable.
\<close>

definition argsort_contract :: "(real list \<Rightarrow> nat list) \<Rightarrow> bool" where
  "argsort_contract argsort \<longleftrightarrow>
     (\<forall>xs. mset (argsort xs) = mset [0..<length xs] \<and> sorted (map (\<lambda>i. xs ! i) (argsort xs)))"

text \<open>
  Two sorts that NumPy runs under the name \<open>quicksort\<close>.

  \<open>stable_argsort\<close> is the insertion sort that the scalar \<open>quicksort\<close> applies to an array
  of at most 16 elements; it keeps equal values in their order.

  \<open>argsort_8_64bit\<close> is the sort of one register of eight 64-bit lanes in
  \<open>x86-simd-sort\<close>, to which NumPy (from version 1.25 on) hands \<open>argsort\<close> of \<open>float64\<close> on
  processors with AVX-512: an array of at most eight keys is loaded into the lanes, the
  other lanes are filled with the greatest value (here \<open>None\<close>) and the index 0, and a
  bitonic network of six steps of compare-and-exchange sorts the lanes (on four lanes,
  as on processors with AVX2, the network is its first three steps). In a step each
  lane takes the smaller or the greater key of itself and its partner, and keeps its own
  index when that key equals its own. A longer array takes several registers and further
  networks, which are not described here: \<open>argsort_8_64bit\<close> is meant for at most eight
  keys.
\<close>

definition stable_argsort :: "real list \<Rightarrow> nat list" where
  "stable_argsort xs = sort_key (\<lambda>i. xs ! i) [0..<length xs]"

type_synonym lane = "real option \<times> nat"

definition key_le :: "real option \<Rightarrow> real option \<Rightarrow> bool" where
  "key_le a b =
     (case b of None \<Rightarrow> True | Some y \<Rightarrow> (case a of None \<Rightarrow> False | Some x \<Rightarrow> x \<le> y))"

definition lane_min :: "lane \<Rightarrow> lane \<Rightarrow> lane" where
  "lane_min own other = (if key_le (fst own) (fst other) then own else other)"

definition lane_max :: "lane \<Rightarrow> lane \<Rightarrow> lane" where
  "lane_max own other = (if key_le (fst other) (fst own) then own else other)"

definition cmp_merge :: "(nat \<times> nat) list \<Rightarrow> lane list \<Rightarrow> lane list" where
  "cmp_merge pairs v =
     foldl (\<lambda>w (i, j). w[i := lane_min (v ! i) (v ! j), j := lane_max (v ! j) (v ! i)]) v pairs"

definition sort_zmm_64bit :: "lane list \<Rightarrow> lane list" where
  "sort_zmm_64bit v0 =
     (let v1 = cmp_merge [(0, 1), (2, 3), (4, 5), (6, 7)] v0;
          v2 = cmp_merge [(0, 3), (1, 2), (4, 7), (5, 6)] v1;
          v3 = cmp_merge [(0, 1), (2, 3), (4, 5), (6, 7)] v2;
          v4 = cmp_merge [(0, 7), (1, 6), (2, 5), (3, 4)] v3;
          v5 = cmp_merge [(0, 2), (1, 3), (4, 6), (5, 7)] v4;
          v6 = cmp_merge [(0, 1), (2, 3), (4, 5), (6, 7)] v5
      in v6)"

definition argsort_8_64bit :: "real list \<Rightarrow> nat list" where
  "argsort_8_64bit arr =
     (let n = length arr;
          lanes = map (\<lambda>i. if i < n then (Some (arr ! i), i) else (None, 0)) [0..<8]
      in take n (map snd (sort_zmm_64bit lanes)))"

text \<open>
  A frame is well formed when every column has one cell for each row. What a block of
  \<open>clean_data\<close> computes depends on the names and the cells of the columns only:
  \<open>field_cells\<close> is \<open>field_step\<close> on these, returning the cells of the target column.
\<close>

definition wf_frame :: "frame \<Rightarrow> bool" where
  "wf_frame df \<longleftrightarrow> list_all (\<lambda>kv. length (cells (snd kv)) = nrows df) (columns df)"

definition cols :: "frame \<Rightarrow> (pystr \<times> cell list) list" where
  "cols df = map (\<lambda>kv. (fst kv, cells (snd kv))) (columns df)"

definition the_cells :: "(pystr \<times> cell list) list \<Rightarrow> pystr \<Rightarrow> cell list" where
  "the_cells cs c = (case map_of cs c of Some v \<Rightarrow> v | None \<Rightarrow> [])"

definition field_rest ::
  "(cell \<Rightarrow> error + cell) \<Rightarrow> (cell \<Rightarrow> error + bool) \<Rightarrow> (pystr \<Rightarrow> bool) \<Rightarrow>
   pystr \<Rightarrow> pystr \<Rightarrow> cell \<Rightarrow> nat \<Rightarrow> (pystr \<times> cell list) list \<Rightarrow> error + cell list"
  where
  "field_rest f sel_of syn basic dst dflt n cs =
     (if basic \<in> fst ` set cs \<and> dst \<in> fst ` set cs then
        (case mapE sel_of (the_cells cs dst) of
           Inl e \<Rightarrow> Inl e
         | Inr sel \<Rightarrow>
             (case mapE f (map snd (filter fst (zip sel (the_cells cs basic)))) of
                Inl e \<Rightarrow> Inl e
              | Inr rs \<Rightarrow> Inr (merge_rows sel (the_cells cs dst) rs)))
      else if basic \<in> fst ` set cs then mapE f (the_cells cs basic)
      else
        (case find syn (map fst cs) of
           Some c \<Rightarrow> mapE f (the_cells cs c)
         | None \<Rightarrow> Inr (replicate n dflt)))"

definition field_cells ::
  "(cell \<Rightarrow> error + cell) \<Rightarrow> (cell \<Rightarrow> error + bool) \<Rightarrow> (pystr \<Rightarrow> bool) \<Rightarrow>
   pystr \<Rightarrow> pystr \<Rightarrow> pystr \<Rightarrow> cell \<Rightarrow> nat \<Rightarrow> (pystr \<times> cell list) list \<Rightarrow> error + cell list"
  where
  "field_cells f sel_of syn detail basic dst dflt n cs =
     (if detail \<in> fst ` set cs then
        (case mapE f (the_cells cs detail) of
           Inl e \<Rightarrow> Inl e
         | Inr v \<Rightarrow> field_rest f sel_of syn basic dst dflt n (update_col dst v cs))
      else field_rest f sel_of syn basic dst dflt n cs)"

text \<open>
  A block leaves the frame unchanged outside the columns \<open>W\<close>: the number of rows stays,
  and so does every selection of columns that takes none of \<open>W\<close>.
\<close>

definition unchanged_outside :: "pystr set \<Rightarrow> frame \<Rightarrow> frame \<Rightarrow> bool" where
  "unchanged_outside W df df' \<longleftrightarrow>
     nrows df' = nrows df \<and>
     (\<forall>P. (\<forall>c \<in> W. \<not> P c) \<longrightarrow>
        filter (\<lambda>kv. P (fst kv)) (cols df') = filter (\<lambda>kv. P (fst kv)) (cols df))"

text \<open>Normalizing the frame that a first normalization has returned.\<close>

definition normalize_twice :: "pylib \<Rightarrow> frame \<Rightarrow> outcome" where
  "normalize_twice L df =
     (case snd (clean_frame L df) of
        Inl e \<Rightarrow> ([], Inl e)
      | Inr df1 \<Rightarrow> clean_frame L df1)"

section \<open>Evaluation on concrete frames\<close>

lemmas names_defs = u_def col_orig_price_def col_disc_price_def col_price_def col_rating_def
  col_detail_rating_def col_basic_rating_def syn_rating_def col_tags_def col_detail_tags_def
  col_basic_tags_def syn_tags_def col_date_def col_detail_date_def col_basic_date_def
  syn_release_def syn_date_def col_year_def lit_unknown_def lit_free_def lit_empty_list_def

lemmas frame_defs = csv_frame_def has_col_def col_names_def get_col_def set_col_def
  const_series_def mk_series_def infer_datetime_def apply_col_def apply_series_def
  fill_col_def loc_assign_def fillna_def column_of_def cell_isna_def cell_len0_def

lemmas step_defs = scan_or_default_def price_step_def field_step_def rating_step_def
  tags_step_def date_step_def year_step_def dt_year_def year_cell_def and_then_def
  clean_frame_def price_syn_def rating_syn_def tags_syn_def date_syn_def lower_def lower_cp_def

lemmas parser_defs = price_cell_def rating_cell_def tags_cell_def date_cell_def
  clean_price_def clean_rating_def clean_tags_def clean_date_def isna_truth_def eq_str_def
  py_str_def search_decimal_def float_of_decimal_def digits_val_def is_digit_def
  match_ymd_def digits_then_dash_def remove_brackets_quotes_def strip_def is_space_def

lemmas ref_defs = ref_lib_def ref_to_datetime_def ref_parse_date_def days_in_month_def

section \<open>The field parsers on raw cells\<close>

lemma isna_truth_raw: "raw_cell c \<Longrightarrow> isna_truth L c = Inr (c = CNull)"
  by (cases c) (simp_all add: isna_truth_def)

lemma clean_price_total: "raw_cell c \<Longrightarrow> \<exists>x. clean_price L c = Inr x"
  by (simp add: clean_price_def isna_truth_raw split: option.split)

lemma clean_rating_total: "raw_cell c \<Longrightarrow> \<exists>r. clean_rating L c = Inr r"
  by (cases c) (simp_all add: clean_rating_def isna_truth_def split: option.split)

lemma clean_tags_total: "raw_cell c \<Longrightarrow> \<exists>ts. clean_tags L c = Inr ts"
  by (cases c) (simp_all add: clean_tags_def isna_truth_def Let_def)

lemma clean_date_total: "raw_cell c \<Longrightarrow> \<exists>d. clean_date L c = Inr d"
  by (simp add: clean_date_def isna_truth_raw split: option.split)

section \<open>Claims about \<open>clean_data\<close> that the year block breaks\<close>

text \<open>
  C1. Claim: every field parser returns a typed value or the default of its field on every
  raw cell and never raises, and so normalization ends on every raw record set with
  every field typed or unknown, never with an exception. The parsers do so (the four
  lemmas above). Normalization does not: on the record set of one row whose date cell
  \<open>n/a\<close> parses to unknown, the date column holds no timestamp, pandas keeps it as a
  column of floats, and \<open>df[date].dt.year\<close> raises \<open>AttributeError\<close>.
\<close>

theorem clean_frame_unknown_date_raises:
  "clean_frame ref_lib
     (csv_frame 1 [(col_disc_price, [CStr (u ''49.99'')]), (col_detail_rating, [CStr (u ''92%'')]),
                   (col_detail_tags, [CStr (u ''Action'')]), (col_detail_date, [CStr (u ''n/a'')])])
   = ([], Inl AttributeError)"
  by (simp add: names_defs frame_defs step_defs parser_defs ref_defs search_percent.simps)

text \<open>
  Without a column for price, rating and tags, but with a date that parses, the run
  returns: the three defaults are filled in and the three warnings shown.
\<close>

lemma missing_fields_get_defaults:
  "clean_frame ref_lib (csv_frame 1 [(col_detail_date, [CStr (u ''2021-03-15'')])]) =
     ([NoPriceColumn, NoRatingColumn, NoTagsColumn],
      Inr \<lparr>nrows = 1, columns =
        [(col_detail_date, \<lparr>is_datetime = False, cells = [CStr (u ''2021-03-15'')]\<rparr>),
         (col_price, \<lparr>is_datetime = False, cells = [CFloat 0]\<rparr>),
         (col_rating, \<lparr>is_datetime = False, cells = [CNull]\<rparr>),
         (col_tags, \<lparr>is_datetime = False, cells = [CList []]\<rparr>),
         (col_date, \<lparr>is_datetime = True, cells = [CTime (Timestamp 2021 3 15)]\<rparr>),
         (col_year, \<lparr>is_datetime = False, cells = [CInt 2021]\<rparr>)]\<rparr>)"
  by (simp add: names_defs frame_defs step_defs parser_defs ref_defs)

text \<open>
  C3. Claim: when no column matches a field by any rule, the field gets its default in
  every row, a warning is shown for it, and the remaining fields and records are
  processed without error. For the price, the rating and the tags this is what the code
  does; when the date is the field without a column, the four warnings are shown and
  then \<open>df[date].dt.year\<close> raises \<open>AttributeError\<close> on the default column.
\<close>

theorem clean_frame_no_columns_raises:
  "clean_frame ref_lib (csv_frame 1 [(u ''name'', [CStr (u ''Portal'')])]) =
     ([NoPriceColumn, NoRatingColumn, NoTagsColumn, NoDateColumn], Inl AttributeError)"
  by (simp add: names_defs frame_defs step_defs)

text \<open>
  C5. Claim: for every record set, the empty one included, normalization returns one
  canonical record per raw record in the same order, and the empty set gives the empty
  set without error. On the empty record set (all four detailed columns present, no
  row) the date column is empty, it is not a \<open>datetime64\<close> column, and the run raises.
\<close>

theorem clean_frame_empty_raises:
  "clean_frame ref_lib
     (csv_frame 0 [(col_disc_price, []), (col_detail_rating, []), (col_detail_tags, []),
                   (col_detail_date, [])])
   = ([], Inl AttributeError)"
  by (simp add: names_defs frame_defs step_defs)

section \<open>The fall-back from the detailed to the basic column\<close>

text \<open>
  Rating, tags and date do fall back row by row: the second rating, the first tag list
  and the second date below come from the basic columns, the others from the detailed.
\<close>

lemma other_fields_fall_back_row_by_row:
  "column_of (clean_frame ref_lib (csv_frame 2
      [(col_detail_rating, [CStr (u ''92%''), CStr lit_unknown]),
       (col_basic_rating, [CStr (u ''90%''), CStr (u ''77%'')]),
       (col_detail_tags, [CStr (u ''[]''), CStr (u ''RPG'')]),
       (col_basic_tags, [CStr (u ''Action''), CStr (u ''Indie'')]),
       (col_detail_date, [CStr (u ''2021-03-15''), CStr (u ''n/a'')]),
       (col_basic_date, [CStr (u ''2020''), CStr (u ''2019'')])])) col_rating = Inr [CFloat 92, CFloat 77]
   \<and> column_of (clean_frame ref_lib (csv_frame 2
      [(col_detail_rating, [CStr (u ''92%''), CStr lit_unknown]),
       (col_basic_rating, [CStr (u ''90%''), CStr (u ''77%'')]),
       (col_detail_tags, [CStr (u ''[]''), CStr (u ''RPG'')]),
       (col_basic_tags, [CStr (u ''Action''), CStr (u ''Indie'')]),
       (col_detail_date, [CStr (u ''2021-03-15''), CStr (u ''n/a'')]),
       (col_basic_date, [CStr (u ''2020''), CStr (u ''2019'')])])) col_tags
       = Inr [CList [u ''Action''], CList [u ''RPG'']]
   \<and> column_of (clean_frame ref_lib (csv_frame 2
      [(col_detail_rating, [CStr (u ''92%''), CStr lit_unknown]),
       (col_basic_rating, [CStr (u ''90%''), CStr (u ''77%'')]),
       (col_detail_tags, [CStr (u ''[]''), CStr (u ''RPG'')]),
       (col_basic_tags, [CStr (u ''Action''), CStr (u ''Indie'')]),
       (col_detail_date, [CStr (u ''2021-03-15''), CStr (u ''n/a'')]),
       (col_basic_date, [CStr (u ''2020''), CStr (u ''2019'')])])) col_date
       = Inr [CTime (Timestamp 2021 3 15), CTime (Timestamp 2019 1 1)]"
  by (simp add: names_defs frame_defs step_defs parser_defs ref_defs search_percent.simps
      numeral_2_eq_2)

text \<open>
  C2. Claim: when the detailed and the basic column of a field both exist, a row whose
  detailed value parses to the unknown value of the field takes its value from the
  basic column of the same row; this for price, rating, tags and date. For the price
  the code calls \<open>fillna\<close> on the two parsed columns, but \<open>clean_price\<close> has already
  turned every unknown price into \<open>0.0\<close>, so nothing is filled: with the discount price
  \<open>unknown\<close> and the original price \<open>49.99\<close> the price is \<open>0.0\<close>.
\<close>

theorem price_fallback_never_fills:
  "column_of
     (clean_frame ref_lib
        (csv_frame 1 [(col_disc_price, [CStr lit_unknown]), (col_orig_price, [CStr (u ''49.99'')]),
                      (col_detail_date, [CStr (u ''2021-03-15'')])]))
     col_price = Inr [CFloat 0]
   \<and> clean_price ref_lib (CStr (u ''49.99'')) = Inr (4999 / 100)"
  by (simp add: names_defs frame_defs step_defs parser_defs ref_defs)

section \<open>The correlation of price and rating\<close>

lemma valid_prices: "map price_of (valid_data df) = map fst (spec_price_rating_pairs df)"
  by (induction df) (auto simp: valid_data_def dropna_def price_of_def split: option.splits)

lemma valid_ratings: "map rating_of (valid_data df) = map snd (spec_price_rating_pairs df)"
  by (induction df)
    (auto simp: valid_data_def dropna_def price_of_def rating_of_def split: option.splits)

lemma valid_empty: "valid_data df = [] \<longleftrightarrow> spec_price_rating_pairs df = []"
  using valid_prices [of df] by (metis map_is_Nil_conv)

lemma sqrt_2500: "sqrt 2500 = 50"
  by (rule real_sqrt_unique) simp_all

lemma pearson_two_points: "pearson [10, 20] [90, 80] = Some (- 1)"
  by (simp add: pearson_def mean_def power2_eq_square sqrt_2500)

text \<open>
  C4, as the claim states it: with fewer than two valid records the analytic returns the
  no-data result, and each boundary of the bands belongs to the band of lower
  magnitude. Neither holds. With one valid record the analytic returns a figure and a
  coefficient, which is \<open>NaN\<close>, and \<open>main\<close> goes through its comparisons with it down to
  the last branch; and the negative boundaries \<open>-0.3\<close> and \<open>-0.5\<close> belong to the bands of
  higher magnitude.
\<close>

theorem correlation_claim_counterexample:
  "plot_rating_price_correlation pearson
     [\<lparr>row_id = 0, price = Some 10, rating = Some 90, tags = []\<rparr>] = Coefficient None
   \<and> corr_band None = StrongNeg
   \<and> corr_band (Some (- (3 / 10))) = ModerateNeg
   \<and> corr_band (Some (- (5 / 10))) = StrongNeg"
  by (simp add: plot_rating_price_correlation_def valid_data_def dropna_def price_of_def
        pearson_def corr_band_def)

text \<open>
  C4, amended: the analytic keeps the records that have a price and a rating, with a
  price above zero. If no such record is left it returns the no-data result. If two or
  more are left it returns the coefficient that \<open>Series.corr\<close> computes from their prices
  and their ratings, in the order of the records. A coefficient \<open>c\<close> is reported as
  strong positive for \<open>c > 0.5\<close>, moderate positive for \<open>0.3 < c \<le> 0.5\<close>, weak positive for
  \<open>0 < c \<le> 0.3\<close>, weak negative for \<open>-0.3 < c \<le> 0\<close>, moderate negative for
  \<open>-0.5 < c \<le> -0.3\<close> and strong negative for \<open>c \<le> -0.5\<close>: each boundary belongs to the
  band below it. The statement says nothing of one record left, nor of a coefficient
  that is \<open>NaN\<close>.
\<close>

theorem correlation_bands:
  "(spec_price_rating_pairs df = [] \<longrightarrow> plot_rating_price_correlation corr df = NoData)
   \<and> (2 \<le> length (spec_price_rating_pairs df) \<longrightarrow>
        plot_rating_price_correlation corr df
          = Coefficient (corr (map fst (spec_price_rating_pairs df))
                              (map snd (spec_price_rating_pairs df))))
   \<and> (corr_band (Some c) = StrongPos \<longleftrightarrow> 5 / 10 < c)
   \<and> (corr_band (Some c) = ModeratePos \<longleftrightarrow> 3 / 10 < c \<and> c \<le> 5 / 10)
   \<and> (corr_band (Some c) = WeakPos \<longleftrightarrow> 0 < c \<and> c \<le> 3 / 10)
   \<and> (corr_band (Some c) = WeakNeg \<longleftrightarrow> - (3 / 10) < c \<and> c \<le> 0)
   \<and> (corr_band (Some c) = ModerateNeg \<longleftrightarrow> - (5 / 10) < c \<and> c \<le> - (3 / 10))
   \<and> (corr_band (Some c) = StrongNeg \<longleftrightarrow> c \<le> - (5 / 10))"
proof -
  have a: "spec_price_rating_pairs df = [] \<longrightarrow> plot_rating_price_correlation corr df = NoData"
    by (simp add: plot_rating_price_correlation_def valid_empty)
  have b: "2 \<le> length (spec_price_rating_pairs df) \<longrightarrow>
        plot_rating_price_correlation corr df
          = Coefficient (corr (map fst (spec_price_rating_pairs df))
                              (map snd (spec_price_rating_pairs df)))"
    by (auto simp add: plot_rating_price_correlation_def valid_empty valid_prices valid_ratings
          Let_def)
  have c: "(corr_band (Some c) = StrongPos \<longleftrightarrow> 5 / 10 < c)
   \<and> (corr_band (Some c) = ModeratePos \<longleftrightarrow> 3 / 10 < c \<and> c \<le> 5 / 10)
   \<and> (corr_band (Some c) = WeakPos \<longleftrightarrow> 0 < c \<and> c \<le> 3 / 10)
   \<and> (corr_band (Some c) = WeakNeg \<longleftrightarrow> - (3 / 10) < c \<and> c \<le> 0)
   \<and> (corr_band (Some c) = ModerateNeg \<longleftrightarrow> - (5 / 10) < c \<and> c \<le> - (3 / 10))
   \<and> (corr_band (Some c) = StrongNeg \<longleftrightarrow> c \<le> - (5 / 10))"
    by (auto simp add: corr_band_def)
  from a b c show ?thesis by blast
qed

theorem correlation_bands_witness:
  "spec_price_rating_pairs
     [\<lparr>row_id = 0, price = Some 10, rating = Some 90, tags = []\<rparr>,
      \<lparr>row_id = 1, price = Some 0, rating = Some 95, tags = []\<rparr>,
      \<lparr>row_id = 2, price = Some 30, rating = None, tags = []\<rparr>,
      \<lparr>row_id = 3, price = Some 20, rating = Some 80, tags = []\<rparr>] = [(10, 90), (20, 80)]
   \<and> plot_rating_price_correlation pearson
       [\<lparr>row_id = 0, price = Some 10, rating = Some 90, tags = []\<rparr>,
        \<lparr>row_id = 1, price = Some 0, rating = Some 95, tags = []\<rparr>,
        \<lparr>row_id = 2, price = Some 30, rating = None, tags = []\<rparr>,
        \<lparr>row_id = 3, price = Some 20, rating = Some 80, tags = []\<rparr>] = Coefficient (Some (- 1))
   \<and> corr_band (Some (- 1)) = StrongNeg
   \<and> spec_price_rating_pairs [\<lparr>row_id = 0, price = None, rating = Some 90, tags = []\<rparr>] = []
   \<and> plot_rating_price_correlation pearson
       [\<lparr>row_id = 0, price = None, rating = Some 90, tags = []\<rparr>] = NoData"
  using
    correlation_bands
      [of "[\<lparr>row_id = 0, price = Some 10, rating = Some 90, tags = []\<rparr>,
            \<lparr>row_id = 1, price = Some 0, rating = Some 95, tags = []\<rparr>,
            \<lparr>row_id = 2, price = Some 30, rating = None, tags = []\<rparr>,
            \<lparr>row_id = 3, price = Some 20, rating = Some 80, tags = []\<rparr>]" pearson "- 1"]
    correlation_bands
      [of "[\<lparr>row_id = 0, price = None, rating = Some 90, tags = []\<rparr>]" pearson "- 1"]
  by (simp add: pearson_two_points)

section \<open>The tag parser\<close>

lemma split_comma_nonempty: "split_comma s \<noteq> []"
  by (induction s) (auto split: list.splits)

lemma split_comma_length: "length (split_comma s) = Suc (count_list s 44)"
  by (induction s) (auto split: list.splits simp: split_comma_nonempty)

lemma split_comma_pieces: "p \<in> set (split_comma s) \<Longrightarrow> 44 \<notin> set p \<and> set p \<subseteq> set s"
proof (induction s arbitrary: p)
  case Nil
  then show ?case by simp
next
  case (Cons c cs)
  show ?case
  proof (cases "c = 44")
    case True
    with Cons show ?thesis by auto
  next
    case False
    obtain q qs where q: "split_comma cs = q # qs"
      using split_comma_nonempty by (cases "split_comma cs") auto
    with False Cons.prems have "p = c # q \<or> p \<in> set qs" by simp
    then show ?thesis
    proof
      assume "p = c # q"
      moreover have "44 \<notin> set q \<and> set q \<subseteq> set cs" using Cons.IH [of q] q by simp
      ultimately show ?thesis using False by auto
    next
      assume "p \<in> set qs"
      then have "44 \<notin> set p \<and> set p \<subseteq> set cs" using Cons.IH [of p] q by simp
      then show ?thesis by auto
    qed
  qed
qed

lemma strip_subset: "set (strip p) \<subseteq> set p"
proof -
  have "set (strip p) \<subseteq> set (dropWhile is_space p)"
    unfolding strip_def using set_dropWhileD by fastforce
  also have "\<dots> \<subseteq> set p" using set_dropWhileD by fastforce
  finally show ?thesis .
qed

lemma strip_ends:
  assumes "strip p \<noteq> []"
  shows "\<not> is_space (hd (strip p)) \<and> \<not> is_space (last (strip p))"
proof -
  let ?a = "dropWhile is_space p"
  let ?b = "dropWhile is_space (rev ?a)"
  have b: "?b \<noteq> []" using assms unfolding strip_def rev_is_Nil_conv .
  have a: "?a \<noteq> []"
  proof
    assume e: "?a = []"
    have "?b = []" unfolding e by simp
    with b show False by blast
  qed
  have l: "\<not> is_space (hd ?b)" using b by (rule hd_dropWhile)
  have "last (strip p) = hd ?b" using b by (simp add: strip_def last_rev)
  moreover
  have "\<not> is_space (hd ?a)" using a by (rule hd_dropWhile)
  moreover have "hd (strip p) = hd ?a"
  proof -
    have "hd (strip p) = last ?b" using b by (simp add: strip_def hd_rev)
    also have "last ?b = last (rev ?a)"
      using b by (metis last_appendR takeWhile_dropWhile_id)
    also have "\<dots> = hd ?a" using a by (simp add: last_rev)
    finally show ?thesis .
  qed
  ultimately show ?thesis using l by simp
qed

text \<open>
  C7, as the claim states it: the pieces that are empty after trimming are dropped, so
  every element returned is a non-empty string. \<open>clean_tags\<close> keeps them: the list
  comprehension has no filter (the filter \<open>if tag\<close> stands in the plotting functions).
\<close>

theorem clean_tags_keeps_empty_piece:
  "clean_tags ref_lib (CStr (u ''a,,b'')) = Inr [u ''a'', [], u ''b'']"
  by (simp add: parser_defs names_defs)

text \<open>
  C7, amended: on every raw cell the tag parser returns a sequence and does not raise.
  The sequence is empty for a missing value, for \<open>unknown\<close>, for \<open>[]\<close> and for every cell
  that is not a string. For any other string, every bracket and quote character is
  deleted; if nothing is left the sequence is empty, otherwise the rest is split at the
  commas and each piece is trimmed, and every piece is kept, one more than there are
  commas: an element can be the empty string. No element holds a comma, a bracket or a
  quote, and none starts or ends with whitespace.
\<close>

theorem clean_tags_on_raw_cells:
  assumes "raw_cell c"
  shows "\<exists>ts. clean_tags L c = Inr ts
    \<and> ((c = CNull \<or> c = CStr lit_unknown \<or> c = CStr lit_empty_list \<or> (\<forall>s. c \<noteq> CStr s))
         \<longrightarrow> ts = [])
    \<and> (\<forall>s. c = CStr s \<and> s \<noteq> lit_unknown \<and> s \<noteq> lit_empty_list \<longrightarrow>
          (if remove_brackets_quotes s = [] then ts = []
           else ts = map strip (split_comma (remove_brackets_quotes s))
                \<and> length ts = Suc (count_list (remove_brackets_quotes s) 44)))
    \<and> (\<forall>t \<in> set ts. set t \<inter> {44, 91, 93, 39, 34} = {}
          \<and> (t = [] \<or> (\<not> is_space (hd t) \<and> \<not> is_space (last t))))"
proof (cases c)
  case (CStr s)
  let ?t = "remove_brackets_quotes s"
  have clean: "set p \<inter> {44, 91, 93, 39, 34} = {} \<and> (strip p = [] \<or>
      (\<not> is_space (hd (strip p)) \<and> \<not> is_space (last (strip p))))"
    if "p \<in> set (split_comma ?t)" for p
  proof -
    have "44 \<notin> set p" and "set p \<subseteq> set ?t" using split_comma_pieces [OF that] by simp_all
    moreover have "set ?t \<inter> {91, 93, 39, 34} = {}"
      by (auto simp: remove_brackets_quotes_def)
    ultimately have "set p \<inter> {44, 91, 93, 39, 34} = {}" by auto
    then show ?thesis using strip_ends [of p] by blast
  qed
  have pieces: "set (strip p) \<inter> {44, 91, 93, 39, 34} = {}
      \<and> (strip p = [] \<or> (\<not> is_space (hd (strip p)) \<and> \<not> is_space (last (strip p))))"
    if "p \<in> set (split_comma ?t)" for p
    using clean [OF that] strip_subset [of p] by blast
  show ?thesis
    using CStr pieces
    by (auto simp: clean_tags_def isna_truth_def eq_str_def Let_def split_comma_length)
qed (use assms in \<open>simp_all add: clean_tags_def isna_truth_def eq_str_def\<close>)

theorem clean_tags_on_raw_cells_witness:
  "raw_cell (CStr (u ''['Action', 'Indie']''))
   \<and> clean_tags ref_lib (CStr (u ''['Action', 'Indie']'')) = Inr [u ''Action'', u ''Indie'']
   \<and> (\<exists>ts. clean_tags ref_lib (CStr (u ''['Action', 'Indie']'')) = Inr ts
         \<and> length ts = Suc (count_list (remove_brackets_quotes (u ''['Action', 'Indie']'')) 44))"
proof -
  let ?c = "CStr (u ''['Action', 'Indie']'')"
  have r: "raw_cell ?c" by simp
  have e: "clean_tags ref_lib ?c = Inr [u ''Action'', u ''Indie'']"
    by (simp add: parser_defs names_defs)
  have n: "u ''['Action', 'Indie']'' \<noteq> lit_unknown" "u ''['Action', 'Indie']'' \<noteq> lit_empty_list"
    "remove_brackets_quotes (u ''['Action', 'Indie']'') \<noteq> []"
    by (simp_all add: names_defs remove_brackets_quotes_def)
  from clean_tags_on_raw_cells [OF r, of ref_lib] n
  have "\<exists>ts. clean_tags ref_lib ?c = Inr ts
         \<and> length ts = Suc (count_list (remove_brackets_quotes (u ''['Action', 'Indie']'')) 44)"
    by auto
  with r e show ?thesis by blast
qed

section \<open>The tag frequencies\<close>

lemma cnt_incr: "cnt (incr t d) t' = (if t' = t then Suc (cnt d t) else cnt d t')"
  by (induction d) (auto simp: cnt_def)

lemma keys_incr:
  "map fst (incr t d) = (if t \<in> set (map fst d) then map fst d else map fst d @ [t])"
  by (induction d) auto

lemma cnt_fold: "cnt (foldl (\<lambda>d t. incr t d) d xs) t = cnt d t + count_list xs t"
  by (induction xs arbitrary: d) (auto simp: cnt_incr)

lemma keys_fold:
  "map fst (foldl (\<lambda>d t. incr t d) d xs) =
     map fst d @ filter (\<lambda>t. t \<notin> set (map fst d)) (firsts xs)"
proof (induction xs arbitrary: d)
  case Nil
  then show ?case by simp
next
  case (Cons x xs)
  show ?case
  proof (cases "x \<in> set (map fst d)")
    case True
    have "filter (\<lambda>t. t \<notin> set (map fst d)) (filter (\<lambda>y. y \<noteq> x) (firsts xs)) =
          filter (\<lambda>t. t \<notin> set (map fst d)) (firsts xs)"
      using True by (auto intro!: filter_cong)
    with True show ?thesis by (simp add: Cons.IH keys_incr)
  next
    case False
    have "filter (\<lambda>t. t \<notin> set (map fst d @ [x])) (firsts xs) =
          filter (\<lambda>t. t \<notin> set (map fst d)) (filter (\<lambda>y. y \<noteq> x) (firsts xs))"
      by (auto intro!: filter_cong)
    with False show ?thesis by (simp add: Cons.IH keys_incr)
  qed
qed

lemma keys_counter: "map fst (counter xs) = firsts xs"
  by (simp add: counter_def keys_fold)

lemma set_firsts: "set (firsts xs) = set xs"
  by (induction xs) auto

lemma distinct_firsts: "distinct (firsts xs)"
  by (induction xs) auto

lemma counter_count:
  assumes "(t, c) \<in> set (counter xs)"
  shows "c = count_list xs t"
proof -
  have "distinct (map fst (counter xs))" by (simp add: keys_counter distinct_firsts)
  then have "map_of (counter xs) t = Some c" using assms by (rule map_of_is_SomeI)
  then have "cnt (counter xs) t = c" by (simp add: cnt_def)
  moreover have "cnt (counter xs) t = cnt [] t + count_list xs t"
    unfolding counter_def by (rule cnt_fold)
  moreover have "cnt [] t = 0" by (simp add: cnt_def)
  ultimately show ?thesis by simp
qed

lemma first_pos_Cons:
  "first_pos (x # xs) t = (if t = x then 0 else Suc (first_pos xs t))"
  by (auto simp: first_pos_def)

lemma firsts_in_order: "sorted_wrt (\<lambda>a b. first_pos xs a < first_pos xs b) (firsts xs)"
proof (induction xs)
  case Nil
  then show ?case by simp
next
  case (Cons x xs)
  have "sorted_wrt (\<lambda>a b. first_pos xs a < first_pos xs b) (filter (\<lambda>y. y \<noteq> x) (firsts xs))"
    using Cons.IH by (rule sorted_wrt_filter)
  then have "sorted_wrt (\<lambda>a b. first_pos (x # xs) a < first_pos (x # xs) b)
               (filter (\<lambda>y. y \<noteq> x) (firsts xs))"
    by (rule sorted_wrt_mono_rel [rotated]) (auto simp: first_pos_Cons)
  then show ?case by (auto simp: first_pos_Cons)
qed

lemma insort_lex:
  fixes f :: "'a \<Rightarrow> int"
  assumes "sorted_wrt (\<lambda>p q. f p < f q \<or> (f p = f q \<and> R p q)) ys" and "\<forall>y \<in> set ys. R x y"
  shows "sorted_wrt (\<lambda>p q. f p < f q \<or> (f p = f q \<and> R p q)) (insort_key f x ys)"
  using assms
proof (induction ys)
  case Nil
  then show ?case by simp
next
  case (Cons y ys)
  show ?case
  proof (cases "f x \<le> f y")
    case True
    have "f x < f z \<or> (f x = f z \<and> R x z)" if "z \<in> set (y # ys)" for z
    proof -
      have "f y \<le> f z" using Cons.prems(1) that by auto
      with True have "f x \<le> f z" by simp
      moreover have "R x z" using Cons.prems(2) that by auto
      ultimately show ?thesis by auto
    qed
    with True Cons.prems(1) show ?thesis by simp
  next
    case False
    have "sorted_wrt (\<lambda>p q. f p < f q \<or> (f p = f q \<and> R p q)) (insort_key f x ys)"
      using Cons by simp
    with False Cons.prems(1) show ?thesis by (auto simp: set_insort_key)
  qed
qed

lemma sort_key_lex:
  fixes f :: "'a \<Rightarrow> int"
  assumes "sorted_wrt R d"
  shows "sorted_wrt (\<lambda>p q. f p < f q \<or> (f p = f q \<and> R p q)) (sort_key f d)"
  using assms by (induction d) (auto intro!: insort_lex)

text \<open>
  C9, as the claim states it: every tag sequence is flattened into one multiset and the
  no-data result is returned if that multiset is empty. The code leaves the empty
  strings out while it flattens, and \<open>clean_tags\<close> does produce them (a tag cell of one
  blank): a record set whose only tag is the empty string has a flattened multiset of
  one element and still gets the no-data result.
\<close>

theorem tags_bar_drops_empty_tags:
  "clean_tags ref_lib (CStr (u '' '')) = Inr [[]]
   \<and> concat (map tags [\<lparr>row_id = 0, price = Some 10, rating = Some 90, tags = [[]]\<rparr>]) \<noteq> []
   \<and> plot_tags_bar [\<lparr>row_id = 0, price = Some 10, rating = Some 90, tags = [[]]\<rparr>] = None"
  by (simp add: parser_defs names_defs plot_tags_bar_def all_tags_def)

text \<open>
  C9, amended: the analytic flattens the tag sequences of all records, leaving out the
  empty strings; if nothing is left it returns the no-data result; otherwise it returns
  the first 20 entries of the ranking of the distinct tags with their counts, by
  descending count, tags of equal count in the order in which they were first seen.
\<close>

theorem tags_bar_ranking:
  "\<exists>ranked.
     plot_tags_bar df = (if all_tags df = [] then None else Some (take 20 ranked))
     \<and> all_tags df = filter (\<lambda>t. t \<noteq> []) (concat (map tags df))
     \<and> distinct (map fst ranked) \<and> set (map fst ranked) = set (all_tags df)
     \<and> (\<forall>(t, c) \<in> set ranked. c = count_list (all_tags df) t)
     \<and> sorted_wrt (\<lambda>p q. snd q < snd p \<or>
           (snd p = snd q \<and> first_pos (all_tags df) (fst p) < first_pos (all_tags df) (fst q)))
         ranked"
proof -
  let ?xs = "all_tags df"
  let ?f = "\<lambda>kv :: pystr \<times> nat. - int (snd kv)"
  let ?ranked = "sort_key ?f (counter ?xs)"
  have flat: "?xs = filter (\<lambda>t. t \<noteq> []) (concat (map tags df))"
    by (simp add: all_tags_def filter_concat comp_def)
  have "mset ?ranked = mset (counter ?xs)" by simp
  then have "image_mset fst (mset ?ranked) = image_mset fst (mset (counter ?xs))" by simp
  then have "mset (map fst ?ranked) = mset (map fst (counter ?xs))" by (simp only: mset_map)
  then have keys: "mset (map fst ?ranked) = mset (firsts ?xs)" by (simp only: keys_counter)
  have d: "distinct (map fst ?ranked)"
    using keys distinct_firsts [of ?xs] by (metis mset_eq_imp_distinct_iff)
  have s: "set (map fst ?ranked) = set ?xs"
    using keys set_firsts [of ?xs] by (metis mset_eq_setD)
  have c: "\<forall>(t, c) \<in> set ?ranked. c = count_list ?xs t"
    using counter_count by auto
  have "sorted_wrt (\<lambda>a b. first_pos ?xs a < first_pos ?xs b) (map fst (counter ?xs))"
    by (simp add: keys_counter firsts_in_order)
  then have "sorted_wrt (\<lambda>p q. first_pos ?xs (fst p) < first_pos ?xs (fst q)) (counter ?xs)"
    by (simp add: sorted_wrt_map)
  then have "sorted_wrt (\<lambda>p q. ?f p < ?f q \<or>
      (?f p = ?f q \<and> first_pos ?xs (fst p) < first_pos ?xs (fst q))) ?ranked"
    by (rule sort_key_lex)
  then have o: "sorted_wrt (\<lambda>p q. snd q < snd p \<or>
      (snd p = snd q \<and> first_pos ?xs (fst p) < first_pos ?xs (fst q))) ?ranked"
    by (rule sorted_wrt_mono_rel [rotated]) auto
  have "plot_tags_bar df = (if ?xs = [] then None else Some (take 20 ?ranked))"
    by (simp add: plot_tags_bar_def most_common_def)
  with flat d s c o show ?thesis by blast
qed

theorem tags_bar_ranking_witness:
  "plot_tags_bar
     [\<lparr>row_id = 0, price = None, rating = None, tags = [u ''A'', u ''B'', u ''A'']\<rparr>,
      \<lparr>row_id = 1, price = None, rating = None, tags = [u ''C'', u ''B'']\<rparr>]
     = Some [(u ''A'', 2), (u ''B'', 2), (u ''C'', 1)]
   \<and> (\<exists>ranked.
        plot_tags_bar
          [\<lparr>row_id = 0, price = None, rating = None, tags = [u ''A'', u ''B'', u ''A'']\<rparr>,
           \<lparr>row_id = 1, price = None, rating = None, tags = [u ''C'', u ''B'']\<rparr>]
          = Some (take 20 ranked)
        \<and> distinct (map fst ranked))"
proof -
  let ?df = "[\<lparr>row_id = 0, price = None, rating = None, tags = [u ''A'', u ''B'', u ''A'']\<rparr>,
      \<lparr>row_id = 1, price = None, rating = None, tags = [u ''C'', u ''B'']\<rparr>]"
  have a: "all_tags ?df \<noteq> []" by (simp add: all_tags_def u_def)
  have "plot_tags_bar ?df = Some [(u ''A'', 2), (u ''B'', 2), (u ''C'', 1)]"
    by (simp add: plot_tags_bar_def all_tags_def counter_def most_common_def u_def)
  moreover have "\<exists>ranked. plot_tags_bar ?df = Some (take 20 ranked) \<and> distinct (map fst ranked)"
    using tags_bar_ranking [of ?df] a by auto
  ultimately show ?thesis by blast
qed

section \<open>\<open>clean_data\<close> and the frame of its caller\<close>

text \<open>
  The run on the store is the run of \<open>clean_frame\<close> on the frame at the address given:
  same warnings, same exception, and on return the new frame at a new address.
\<close>

lemma run_block_at_copy:
  "run_block f (length h) (h @ [x], ns, Inr ()) =
     (case f x of (ns', Inl e) \<Rightarrow> (h @ [x], ns @ ns', Inl e)
      | (ns', Inr df) \<Rightarrow> (h @ [df], ns @ ns', Inr ()))"
  by (simp add: run_block_def split: prod.splits sum.splits)

lemma run_block_raised: "run_block f a (h, ns, Inl e) = (h, ns, Inl e)"
  by (simp add: run_block_def)

lemma clean_data_result:
  "snd (clean_data L h a) =
     (case clean_frame L (h ! a) of
        (ns, Inl e) \<Rightarrow> (ns, Inl e)
      | (ns, Inr df) \<Rightarrow> (ns, Inr (length h)))"
  by (auto simp add: clean_data_def copy_frame_def clean_frame_def and_then_def run_block_at_copy
        run_block_raised split: prod.splits sum.splits)

lemma clean_data_store:
  "clean_frame L (h ! a) = (ns, Inr df) \<Longrightarrow> fst (clean_data L h a) = h @ [df]"
  by (auto simp add: clean_data_def copy_frame_def clean_frame_def and_then_def run_block_at_copy
        run_block_raised split: prod.splits sum.splits)

lemma run_block_frame:
  "n \<le> a \<Longrightarrow> take n (fst (run_block f a st)) = take n (fst st)"
  by (cases st) (auto simp: run_block_def split: prod.splits sum.splits)

text \<open>
  C10. \<open>clean_data\<close> does not change its input: when it returns, and also when it raises,
  every frame that was in the store before the call is as it was, the frame of the
  caller among them.
\<close>

theorem clean_data_leaves_input:
  assumes "a < length h"
  shows "take (length h) (fst (clean_data L h a)) = h \<and> fst (clean_data L h a) ! a = h ! a"
proof -
  let ?n = "length h"
  let ?st = "run_block year_step ?n (run_block (date_step L) ?n (run_block (tags_step L) ?n
                  (run_block (rating_step L) ?n (run_block (price_step L) ?n (h @ [h ! a], [], Inr ())))))"
  have "fst (clean_data L h a) = fst ?st"
    by (simp add: clean_data_def copy_frame_def split: prod.splits sum.splits)
  moreover have "take ?n (fst ?st) = take ?n (h @ [h ! a])"
    by (simp add: run_block_frame)
  ultimately have t: "take ?n (fst (clean_data L h a)) = h" by simp
  have "fst (clean_data L h a) ! a = take ?n (fst (clean_data L h a)) ! a"
    using assms by simp
  with t show ?thesis by simp
qed

theorem clean_data_leaves_input_witness:
  "(0::nat) < length [csv_frame 1 [(col_orig_price, [CStr (u ''49.99'')])]]
   \<and> fst (clean_data ref_lib [csv_frame 1 [(col_orig_price, [CStr (u ''49.99'')])]] 0) ! 0
       = csv_frame 1 [(col_orig_price, [CStr (u ''49.99'')])]"
  using clean_data_leaves_input [of 0 "[csv_frame 1 [(col_orig_price, [CStr (u ''49.99'')])]]" ref_lib]
  by simp

section \<open>The high-value games\<close>

lemma rev_upt_nth: "i < n \<Longrightarrow> rev [0..<n] ! i = n - Suc i"
  by (simp add: rev_nth)

lemma rev_as_map: "rev xs = map (\<lambda>i. xs ! (length xs - Suc i)) [0..<length xs]"
  by (rule nth_equalityI) (simp_all add: rev_nth)

lemma argsort_range:
  assumes "argsort_contract argsort" and "i \<in> set (argsort xs)"
  shows "i < length xs"
proof -
  from assms(1) have "mset (argsort xs) = mset [0..<length xs]"
    by (simp add: argsort_contract_def)
  then have "set (argsort xs) = set [0..<length xs]" by (rule mset_eq_setD)
  with assms(2) show ?thesis by simp
qed

lemma nargsort_positions:
  assumes "argsort_contract argsort"
  shows "nargsort argsort items
     = rev (map (\<lambda>i. length items - Suc i) (argsort (rev items)))"
proof -
  have "map (\<lambda>i. rev [0..<length items] ! i) (argsort (rev items))
      = map (\<lambda>i. length items - Suc i) (argsort (rev items))"
  proof (rule map_cong [OF refl])
    fix i assume "i \<in> set (argsort (rev items))"
    with assms have "i < length (rev items)" by (rule argsort_range)
    then show "rev [0..<length items] ! i = length items - Suc i" by (simp add: rev_upt_nth)
  qed
  then show ?thesis by (simp add: nargsort_def Let_def)
qed

lemma sort_values_mset:
  assumes "argsort_contract argsort"
  shows "mset (sort_values argsort df) = mset df"
proof -
  let ?n = "length df"
  let ?p = "argsort (rev (map rating_of df))"
  have p: "mset ?p = mset [0..<?n]" using assms by (simp add: argsort_contract_def)
  have "mset (sort_values argsort df) = mset (map (\<lambda>i. df ! (?n - Suc i)) ?p)"
    by (simp add: sort_values_def nargsort_positions [OF assms] rev_map [symmetric] comp_def)
  also have "\<dots> = image_mset (\<lambda>i. df ! (?n - Suc i)) (mset ?p)" by simp
  also have "\<dots> = mset (map (\<lambda>i. df ! (?n - Suc i)) [0..<?n])" unfolding p by simp
  also have "\<dots> = mset (rev df)" by (simp only: rev_as_map [symmetric])
  finally show ?thesis by simp
qed

lemma sort_values_ratings:
  assumes "argsort_contract argsort"
  shows "map rating_of (sort_values argsort df)
     = rev (map (\<lambda>i. rev (map rating_of df) ! i) (argsort (rev (map rating_of df))))"
proof -
  let ?items = "map rating_of df"
  have "map (\<lambda>i. rating_of (df ! (length df - Suc i))) (argsort (rev ?items))
      = map (\<lambda>i. rev ?items ! i) (argsort (rev ?items))"
  proof (rule map_cong [OF refl])
    fix i assume "i \<in> set (argsort (rev ?items))"
    with assms have "i < length (rev ?items)" by (rule argsort_range)
    then show "rating_of (df ! (length df - Suc i)) = rev ?items ! i"
      by (simp add: rev_nth)
  qed
  then show ?thesis
    by (simp add: sort_values_def nargsort_positions [OF assms] rev_map comp_def)
qed

lemma sort_values_sorted:
  assumes "argsort_contract argsort"
  shows "sorted_wrt (\<lambda>a b. rating_of b \<le> rating_of a) (sort_values argsort df)"
proof -
  let ?r = "rev (map rating_of df)"
  have "sorted (map (\<lambda>i. ?r ! i) (argsort ?r))" using assms by (simp add: argsort_contract_def)
  then have "sorted_wrt (\<lambda>a b. b \<le> a) (rev (map (\<lambda>i. ?r ! i) (argsort ?r)))"
    by (simp add: sorted_wrt_rev)
  then have "sorted_wrt (\<lambda>a b. b \<le> a) (map rating_of (sort_values argsort df))"
    by (simp only: sort_values_ratings [OF assms])
  then show ?thesis by (simp add: sorted_wrt_map)
qed

lemma stable_argsort_contract: "argsort_contract stable_argsort"
  by (simp add: argsort_contract_def stable_argsort_def)

text \<open>
  C8, as the claim states it: the selected records are ordered by descending rating,
  records of equal rating in their original order (a stable sort). The code asks pandas
  for no stable sort. Of four records with the ratings 86, 86, 90 and 90, all selected,
  \<open>nargsort\<close> hands the ratings 90, 90, 86, 86 to \<open>argsort\<close>; the network of one register
  exchanges the first with the fourth and the second with the third, and the records
  come out in the order 3, 2, 1, 0: both pairs of equal rating are reversed. With the
  insertion sort the order is 2, 3, 0, 1, as the claim has it.
\<close>

theorem high_value_ties_counterexample:
  "find_high_value_games mean argsort_8_64bit
       [\<lparr>row_id = 0, price = Some 10, rating = Some 86, tags = []\<rparr>,
        \<lparr>row_id = 1, price = Some 10, rating = Some 86, tags = []\<rparr>,
        \<lparr>row_id = 2, price = Some 10, rating = Some 90, tags = []\<rparr>,
        \<lparr>row_id = 3, price = Some 10, rating = Some 90, tags = []\<rparr>] (Some 25)
     = Some [\<lparr>row_id = 3, price = Some 10, rating = Some 90, tags = []\<rparr>,
             \<lparr>row_id = 2, price = Some 10, rating = Some 90, tags = []\<rparr>,
             \<lparr>row_id = 1, price = Some 10, rating = Some 86, tags = []\<rparr>,
             \<lparr>row_id = 0, price = Some 10, rating = Some 86, tags = []\<rparr>]
   \<and> find_high_value_games mean stable_argsort
       [\<lparr>row_id = 0, price = Some 10, rating = Some 86, tags = []\<rparr>,
        \<lparr>row_id = 1, price = Some 10, rating = Some 86, tags = []\<rparr>,
        \<lparr>row_id = 2, price = Some 10, rating = Some 90, tags = []\<rparr>,
        \<lparr>row_id = 3, price = Some 10, rating = Some 90, tags = []\<rparr>] (Some 25)
     = Some [\<lparr>row_id = 2, price = Some 10, rating = Some 90, tags = []\<rparr>,
             \<lparr>row_id = 3, price = Some 10, rating = Some 90, tags = []\<rparr>,
             \<lparr>row_id = 0, price = Some 10, rating = Some 86, tags = []\<rparr>,
             \<lparr>row_id = 1, price = Some 10, rating = Some 86, tags = []\<rparr>]"
  by code_simp

text \<open>
  C8, amended: the analytic keeps the records that have a rating and a price, with a
  price above zero; if none is left it returns the no-data result; otherwise it returns
  exactly the records among them with a rating of at least 85 and a price of at most the
  threshold, in descending order of rating. The threshold is the mean price given by the
  caller, or else what \<open>Series.mean\<close> returns for the prices of the records kept. The order
  of records of equal rating is left to the sort. This holds for every \<open>argsort\<close> that
  keeps the contract of NumPy.
\<close>

theorem high_value_filter:
  assumes "argsort_contract argsort"
  shows "case find_high_value_games series_mean argsort df mean_price of
       None \<Rightarrow> spec_price_rating_pairs df = []
     | Some hv \<Rightarrow>
         spec_price_rating_pairs df \<noteq> []
         \<and> mset hv = mset (filter (\<lambda>g. \<exists>p r. price g = Some p \<and> rating g = Some r \<and> 0 < p
                \<and> 85 \<le> r
                \<and> p \<le> (case mean_price of
                           None \<Rightarrow> series_mean (map fst (spec_price_rating_pairs df))
                         | Some m \<Rightarrow> m)) df)
         \<and> sorted_wrt (\<lambda>a b. rating_of b \<le> rating_of a) hv"
proof (cases "spec_price_rating_pairs df = []")
  case True
  then show ?thesis by (simp add: find_high_value_games_def valid_empty)
next
  case False
  let ?t = "case mean_price of
              None \<Rightarrow> series_mean (map fst (spec_price_rating_pairs df)) | Some m \<Rightarrow> m"
  let ?hv = "filter (\<lambda>g. 85 \<le> rating_of g \<and> price_of g \<le> ?t) (valid_data df)"
  let ?sel = "filter (\<lambda>g. \<exists>p r. price g = Some p \<and> rating g = Some r \<and> 0 < p
                \<and> 85 \<le> r \<and> p \<le> ?t) df"
  have e: "find_high_value_games series_mean argsort df mean_price
      = Some (sort_values argsort ?hv)"
    using False
    by (simp add: find_high_value_games_def valid_empty valid_prices Let_def
        cong: option.case_cong)
  have "?hv = ?sel"
    unfolding valid_data_def dropna_def filter_filter
    by (rule filter_cong [OF refl]) (auto simp: price_of_def rating_of_def)
  then have "mset (sort_values argsort ?hv) = mset ?sel"
    by (simp only: sort_values_mset [OF assms])
  with False sort_values_sorted [OF assms, of ?hv] show ?thesis unfolding e by simp
qed

theorem high_value_filter_witness:
  "argsort_contract stable_argsort
   \<and> find_high_value_games mean stable_argsort
       [\<lparr>row_id = 0, price = Some 10, rating = Some 90, tags = []\<rparr>,
        \<lparr>row_id = 1, price = Some 60, rating = Some 86, tags = []\<rparr>,
        \<lparr>row_id = 2, price = Some 5, rating = Some 80, tags = []\<rparr>] (Some 25)
     = Some [\<lparr>row_id = 0, price = Some 10, rating = Some 90, tags = []\<rparr>]
   \<and> (case find_high_value_games mean stable_argsort
         [\<lparr>row_id = 0, price = Some 10, rating = Some 90, tags = []\<rparr>,
          \<lparr>row_id = 1, price = Some 60, rating = Some 86, tags = []\<rparr>,
          \<lparr>row_id = 2, price = Some 5, rating = Some 80, tags = []\<rparr>] (Some 25) of
         None \<Rightarrow> False
       | Some hv \<Rightarrow> sorted_wrt (\<lambda>a b. rating_of b \<le> rating_of a) hv)"
proof -
  let ?df = "[\<lparr>row_id = 0, price = Some 10, rating = Some 90, tags = []\<rparr>,
        \<lparr>row_id = 1, price = Some 60, rating = Some 86, tags = []\<rparr>,
        \<lparr>row_id = 2, price = Some 5, rating = Some 80, tags = []\<rparr>]"
  have e: "find_high_value_games mean stable_argsort ?df (Some 25)
      = Some [\<lparr>row_id = 0, price = Some 10, rating = Some 90, tags = []\<rparr>]"
    by code_simp
  have "case find_high_value_games mean stable_argsort ?df (Some 25) of
       None \<Rightarrow> spec_price_rating_pairs ?df = []
     | Some hv \<Rightarrow>
         spec_price_rating_pairs ?df \<noteq> []
         \<and> mset hv = mset (filter (\<lambda>g. \<exists>p r. price g = Some p \<and> rating g = Some r \<and> 0 < p
                \<and> 85 \<le> r
                \<and> p \<le> (case Some 25 of
                           None \<Rightarrow> mean (map fst (spec_price_rating_pairs ?df))
                         | Some m \<Rightarrow> m)) ?df)
         \<and> sorted_wrt (\<lambda>a b. rating_of b \<le> rating_of a) hv"
    using stable_argsort_contract by (rule high_value_filter)
  then have "case find_high_value_games mean stable_argsort ?df (Some 25) of
       None \<Rightarrow> False | Some hv \<Rightarrow> sorted_wrt (\<lambda>a b. rating_of b \<le> rating_of a) hv"
    unfolding e by simp
  with e stable_argsort_contract show ?thesis by blast
qed

section \<open>Normalizing twice\<close>

subsection \<open>A block on the names and cells of the columns\<close>

lemma keys_update_col: "fst ` set (update_col c v cs) = insert c (fst ` set cs)"
  by (induction cs) auto

lemma names_update_col:
  "map fst (update_col c v cs) = (if c \<in> fst ` set cs then map fst cs else map fst cs @ [c])"
  by (induction cs) auto

lemma map_of_update_col: "map_of (update_col c v cs) = (map_of cs)(c \<mapsto> v)"
  by (induction cs) (auto simp: fun_eq_iff)

lemma the_cells_update_col:
  "the_cells (update_col c v cs) c' = (if c' = c then v else the_cells cs c')"
  by (simp add: the_cells_def map_of_update_col)

lemma update_col_twice: "update_col c v (update_col c w cs) = update_col c v cs"
  by (induction cs) auto

lemma cols_set_col: "cols (set_col df c s) = update_col c (cells s) (cols df)"
proof -
  have "map (\<lambda>kv. (fst kv, cells (snd kv))) (update_col c s xs) =
        update_col c (cells s) (map (\<lambda>kv. (fst kv, cells (snd kv))) xs)" for xs
    by (induction xs) auto
  then show ?thesis by (simp add: cols_def set_col_def)
qed

lemma has_col_cols: "has_col df c \<longleftrightarrow> c \<in> fst ` set (cols df)"
  by (force simp: has_col_def col_names_def cols_def)

lemma col_names_cols: "col_names df = map fst (cols df)"
  by (simp add: col_names_def cols_def comp_def)

lemma cells_get_col: "cells (get_col df c) = the_cells (cols df) c"
proof -
  have "map_of (map (\<lambda>kv. (fst kv, cells (snd kv))) xs) c = map_option cells (map_of xs c)"
    for xs :: "(pystr \<times> series) list"
    by (induction xs) auto
  then show ?thesis by (simp add: get_col_def the_cells_def cols_def split: option.split)
qed

lemma nrows_set_col: "nrows (set_col df c s) = nrows df"
  by (simp add: set_col_def)

lemma apply_col_cells:
  assumes "apply_col f src dst df = Inr df'"
  shows "mapE f (the_cells (cols df) src) = Inr (the_cells (cols df') dst)
     \<and> cols df' = update_col dst (the_cells (cols df') dst) (cols df) \<and> nrows df' = nrows df"
  using assms
  by (auto simp: apply_col_def apply_series_def mk_series_def cols_set_col cells_get_col
      the_cells_update_col nrows_set_col split: sum.splits)

lemma fill_col_cells:
  assumes "fill_col f sel_of src dst df = Inr df'"
  shows "\<exists>sel rs. mapE sel_of (the_cells (cols df) dst) = Inr sel
     \<and> mapE f (map snd (filter fst (zip sel (the_cells (cols df) src)))) = Inr rs
     \<and> the_cells (cols df') dst = merge_rows sel (the_cells (cols df) dst) rs
     \<and> cols df' = update_col dst (the_cells (cols df') dst) (cols df) \<and> nrows df' = nrows df"
  using assms
  by (auto simp: fill_col_def loc_assign_def cols_set_col cells_get_col
      the_cells_update_col nrows_set_col split: sum.splits)

lemma scan_cells:
  assumes "scan_or_default f syn dst dflt n df = (ns, Inr df')"
  shows "(case find syn (map fst (cols df)) of
            Some c \<Rightarrow> mapE f (the_cells (cols df) c)
          | None \<Rightarrow> Inr (replicate (nrows df) dflt)) = Inr (the_cells (cols df') dst)
     \<and> cols df' = update_col dst (the_cells (cols df') dst) (cols df) \<and> nrows df' = nrows df"
  using assms
  by (auto simp: scan_or_default_def col_names_cols const_series_def mk_series_def cols_set_col
      the_cells_update_col nrows_set_col dest: apply_col_cells split: option.splits)

lemma field_step_cells:
  assumes "field_step f sel_of syn detail basic dst dflt n df = (ns, Inr df')"
  shows "field_cells f sel_of syn detail basic dst dflt (nrows df) (cols df)
           = Inr (the_cells (cols df') dst)
     \<and> cols df' = update_col dst (the_cells (cols df') dst) (cols df) \<and> nrows df' = nrows df"
proof -
  obtain df1 where d: "(if has_col df detail then apply_col f detail dst df else Inr df) = Inr df1"
    using assms by (auto simp: field_step_def split: sum.splits)
  have c1: "field_cells f sel_of syn detail basic dst dflt (nrows df) (cols df)
      = field_rest f sel_of syn basic dst dflt (nrows df) (cols df1)"
    and n1: "nrows df1 = nrows df"
    and u1: "\<exists>w. cols df1 = cols df \<or> cols df1 = update_col dst w (cols df)"
    using d apply_col_cells [of f detail dst df df1]
    by (auto simp: has_col_cols field_cells_def split: if_splits)
  have rest: "(if has_col df1 basic \<and> has_col df1 dst then ([], fill_col f sel_of basic dst df1)
          else if has_col df1 basic then ([], apply_col f basic dst df1)
          else scan_or_default f syn dst dflt n df1) = (ns, Inr df')"
    using assms d by (simp add: field_step_def)
  have r: "field_rest f sel_of syn basic dst dflt (nrows df) (cols df1)
           = Inr (the_cells (cols df') dst)
        \<and> cols df' = update_col dst (the_cells (cols df') dst) (cols df1) \<and> nrows df' = nrows df1"
  proof (cases "has_col df1 basic \<and> has_col df1 dst")
    case True
    then have "fill_col f sel_of basic dst df1 = Inr df'" using rest by simp
    from fill_col_cells [OF this] True show ?thesis by (auto simp: has_col_cols field_rest_def)
  next
    case False
    show ?thesis
    proof (cases "has_col df1 basic")
      case True
      then have "apply_col f basic dst df1 = Inr df'" using rest False by simp
      from apply_col_cells [OF this] True False show ?thesis by (auto simp: has_col_cols field_rest_def)
    next
      case nb: False
      then have "scan_or_default f syn dst dflt n df1 = (ns, Inr df')" using rest by simp
      from scan_cells [OF this, unfolded n1] nb n1 show ?thesis
        by (auto simp: has_col_cols field_rest_def)
    qed
  qed
  have "cols df' = update_col dst (the_cells (cols df') dst) (cols df)"
    using r u1 by (auto simp: update_col_twice)
  moreover have "field_cells f sel_of syn detail basic dst dflt (nrows df) (cols df)
           = Inr (the_cells (cols df') dst)"
    using r unfolding c1 by simp
  ultimately show ?thesis using r n1 by simp
qed

lemma keys_filter:
  "c \<in> fst ` set (filter (\<lambda>kv. P (fst kv)) cs) \<longleftrightarrow> P c \<and> c \<in> fst ` set cs"
  by (induction cs) auto

lemma the_cells_filter: "P c \<Longrightarrow> the_cells (filter (\<lambda>kv. P (fst kv)) cs) c = the_cells cs c"
proof -
  assume "P c"
  then have "map_of (filter (\<lambda>kv. P (fst kv)) cs) c = map_of cs c"
    by (induction cs) auto
  then show ?thesis by (simp add: the_cells_def)
qed

lemma filter_update_col:
  "filter (\<lambda>kv. P (fst kv)) (update_col c v cs) =
     (if P c then update_col c v (filter (\<lambda>kv. P (fst kv)) cs) else filter (\<lambda>kv. P (fst kv)) cs)"
  by (induction cs) auto

lemma find_filter:
  assumes "\<And>c. syn c \<Longrightarrow> P c"
  shows "find syn (map fst (filter (\<lambda>kv. P (fst kv)) cs)) = find syn (map fst cs)"
  using assms by (induction cs) auto

lemma find_syn: "find syn xs = Some c \<Longrightarrow> syn c"
  by (induction xs) (auto split: if_splits)

lemma field_rest_relevant:
  assumes "P basic" and "P dst" and "\<And>c. syn c \<Longrightarrow> P c"
  shows "field_rest f sel_of syn basic dst dflt n (filter (\<lambda>kv. P (fst kv)) cs) =
         field_rest f sel_of syn basic dst dflt n cs"
proof -
  let ?cs = "filter (\<lambda>kv. P (fst kv)) cs"
  have kb: "basic \<in> fst ` set ?cs \<longleftrightarrow> basic \<in> fst ` set cs"
    using assms(1) by (simp only: keys_filter [of _ P cs] simp_thms)
  have kd: "dst \<in> fst ` set ?cs \<longleftrightarrow> dst \<in> fst ` set cs"
    using assms(2) by (simp only: keys_filter [of _ P cs] simp_thms)
  have cb: "the_cells ?cs basic = the_cells cs basic"
    using assms(1) by (rule the_cells_filter [of P basic cs])
  have cd: "the_cells ?cs dst = the_cells cs dst"
    using assms(2) by (rule the_cells_filter [of P dst cs])
  have fi: "find syn (map fst ?cs) = find syn (map fst cs)"
    using assms(3) by (rule find_filter [of syn P cs])
  have sc: "(case find syn (map fst cs) of Some c \<Rightarrow> mapE f (the_cells ?cs c)
             | None \<Rightarrow> Inr (replicate n dflt)) =
            (case find syn (map fst cs) of Some c \<Rightarrow> mapE f (the_cells cs c)
             | None \<Rightarrow> Inr (replicate n dflt))"
  proof (cases "find syn (map fst cs)")
    case None
    then show ?thesis by simp
  next
    case (Some c)
    from Some have "syn c" by (rule find_syn)
    then have "P c" by (rule assms(3))
    then have "the_cells ?cs c = the_cells cs c" by (rule the_cells_filter [of P c cs])
    with Some show ?thesis by simp
  qed
  show ?thesis unfolding field_rest_def kb kd cb cd fi sc by (rule refl)
qed

lemma field_cells_relevant:
  assumes "P detail" and "P basic" and "P dst" and "\<And>c. syn c \<Longrightarrow> P c"
  shows "field_cells f sel_of syn detail basic dst dflt n (filter (\<lambda>kv. P (fst kv)) cs) =
         field_cells f sel_of syn detail basic dst dflt n cs"
proof -
  let ?cs = "filter (\<lambda>kv. P (fst kv)) cs"
  have kd: "detail \<in> fst ` set ?cs \<longleftrightarrow> detail \<in> fst ` set cs"
    using assms(1) by (simp only: keys_filter [of _ P cs] simp_thms)
  have cd: "the_cells ?cs detail = the_cells cs detail"
    using assms(1) by (rule the_cells_filter [of P detail cs])
  have r: "field_rest f sel_of syn basic dst dflt n ?cs =
        field_rest f sel_of syn basic dst dflt n cs"
    using assms(2-4) by (rule field_rest_relevant [of P basic dst syn f sel_of dflt n cs])
  have u: "field_rest f sel_of syn basic dst dflt n (update_col dst v ?cs) =
        field_rest f sel_of syn basic dst dflt n (update_col dst v cs)" for v
  proof -
    have e: "update_col dst v ?cs = filter (\<lambda>kv. P (fst kv)) (update_col dst v cs)"
      unfolding filter_update_col [of P dst v cs] using assms(3) by simp
    show ?thesis unfolding e using assms(2-4)
      by (rule field_rest_relevant [of P basic dst syn f sel_of dflt n "update_col dst v cs"])
  qed
  show ?thesis unfolding field_cells_def kd cd r u by (rule refl)
qed

lemma mapE_isna: "mapE cell_isna xs = Inr (map (\<lambda>c. c = CNull) xs)"
  by (induction xs) (simp_all add: cell_isna_def)

lemma mapE_length: "mapE f xs = Inr ys \<Longrightarrow> length ys = length xs"
  by (induction xs arbitrary: ys) (auto split: sum.splits)

lemma mapE_idem:
  assumes "\<And>x y. f x = Inr y \<Longrightarrow> f y = Inr y"
  shows "mapE f xs = Inr ys \<Longrightarrow> mapE f ys = Inr ys"
  by (induction xs arbitrary: ys) (auto split: sum.splits dest: assms)

lemma mapE_replicate: "f d = Inr d \<Longrightarrow> mapE f (replicate n d) = Inr (replicate n d)"
  by (induction n) auto

lemma refill:
  assumes "length bs = length old"
    and "mapE f (map snd (filter fst (zip (map (\<lambda>c. c = CNull) old) bs))) = Inr rs"
  shows "\<exists>rs'. mapE f (map snd (filter fst (zip (map (\<lambda>c. c = CNull)
                    (merge_rows (map (\<lambda>c. c = CNull) old) old rs)) bs))) = Inr rs'
     \<and> merge_rows (map (\<lambda>c. c = CNull) (merge_rows (map (\<lambda>c. c = CNull) old) old rs))
          (merge_rows (map (\<lambda>c. c = CNull) old) old rs) rs'
        = merge_rows (map (\<lambda>c. c = CNull) old) old rs"
  using assms
proof (induction bs old arbitrary: rs rule: list_induct2)
  case Nil
  then show ?case by simp
next
  case (Cons b bs x old)
  show ?case
  proof (cases "x = CNull")
    case True
    then obtain p rs0 where p: "f b = Inr p" and rs0: "mapE f (map snd (filter fst
        (zip (map (\<lambda>c. c = CNull) old) bs))) = Inr rs0" and rs: "rs = p # rs0"
      using Cons.prems by (auto split: sum.splits)
    from Cons.IH [OF rs0] obtain rs' where
      "mapE f (map snd (filter fst (zip (map (\<lambda>c. c = CNull)
                    (merge_rows (map (\<lambda>c. c = CNull) old) old rs0)) bs))) = Inr rs'"
      "merge_rows (map (\<lambda>c. c = CNull) (merge_rows (map (\<lambda>c. c = CNull) old) old rs0))
          (merge_rows (map (\<lambda>c. c = CNull) old) old rs0) rs'
        = merge_rows (map (\<lambda>c. c = CNull) old) old rs0"
      by blast
    then show ?thesis using True p rs by (cases "p = CNull") auto
  next
    case False
    then have "mapE f (map snd (filter fst (zip (map (\<lambda>c. c = CNull) old) bs))) = Inr rs"
      using Cons.prems by simp
    from Cons.IH [OF this] False show ?thesis by auto
  qed
qed

lemma fill_after_apply:
  assumes "mapE f bs = Inr R"
  shows "\<exists>rs'. mapE f (map snd (filter fst (zip (map (\<lambda>c. c = CNull) R) bs))) = Inr rs'
     \<and> merge_rows (map (\<lambda>c. c = CNull) R) R rs' = R"
  using assms
proof (induction bs arbitrary: R)
  case Nil
  then show ?case by simp
next
  case (Cons b bs)
  then obtain p R0 where p: "f b = Inr p" and R0: "mapE f bs = Inr R0" and R: "R = p # R0"
    by (auto split: sum.splits)
  from Cons.IH [OF R0] obtain rs' where
    "mapE f (map snd (filter fst (zip (map (\<lambda>c. c = CNull) R0) bs))) = Inr rs'"
    "merge_rows (map (\<lambda>c. c = CNull) R0) R0 rs' = R0"
    by blast
  then show ?case using p R by (cases "p = CNull") auto
qed

subsection \<open>Running a block again on its own result\<close>

lemma find_append_one:
  "find P (xs @ [x]) = (case find P xs of Some y \<Rightarrow> Some y | None \<Rightarrow> if P x then Some x else None)"
  by (induction xs) auto

lemma field_rest_idem:
  assumes H1: "\<And>x y. f x = Inr y \<Longrightarrow> f y = Inr y" and H3: "f dflt = Inr dflt"
    and ne: "basic \<noteq> dst"
    and len: "basic \<in> fst ` set cs \<Longrightarrow> dst \<in> fst ` set cs \<Longrightarrow>
              length (the_cells cs basic) = length (the_cells cs dst)"
    and r: "field_rest f cell_isna syn basic dst dflt n cs = Inr R"
  shows "field_rest f cell_isna syn basic dst dflt n (update_col dst R cs) = Inr R"
proof -
  let ?cs' = "update_col dst R cs"
  let ?bs = "the_cells cs basic"
  have kd: "dst \<in> fst ` set ?cs'" by (simp add: keys_update_col)
  have kb: "basic \<in> fst ` set ?cs' \<longleftrightarrow> basic \<in> fst ` set cs"
    using ne by (simp add: keys_update_col)
  have cd: "the_cells ?cs' dst = R" by (simp add: the_cells_update_col)
  have cb: "the_cells ?cs' basic = ?bs" using ne by (simp add: the_cells_update_col)
  show ?thesis
  proof (cases "basic \<in> fst ` set cs")
    case True
    have "\<exists>rs'. mapE f (map snd (filter fst (zip (map (\<lambda>c. c = CNull) R) ?bs))) = Inr rs'
        \<and> merge_rows (map (\<lambda>c. c = CNull) R) R rs' = R"
    proof (cases "dst \<in> fst ` set cs")
      case d: True
      let ?old = "the_cells cs dst"
      obtain rs where rs: "mapE f (map snd (filter fst (zip (map (\<lambda>c. c = CNull) ?old) ?bs)))
          = Inr rs" and R: "R = merge_rows (map (\<lambda>c. c = CNull) ?old) ?old rs"
        using r True d by (auto simp: field_rest_def mapE_isna split: sum.splits)
      from refill [OF len [OF True d] rs] show ?thesis unfolding R .
    next
      case False
      then have "mapE f ?bs = Inr R" using r True by (simp add: field_rest_def)
      then show ?thesis by (rule fill_after_apply)
    qed
    then show ?thesis
      using True by (auto simp: field_rest_def kd kb cd cb mapE_isna)
  next
    case nb: False
    have nb': "basic \<notin> fst ` set ?cs'" using nb kb by simp
    show ?thesis
    proof (cases "find syn (map fst cs)")
      case (Some c)
      then have R: "mapE f (the_cells cs c) = Inr R" using r nb by (simp add: field_rest_def)
      have "find syn (map fst ?cs') = Some c"
        using Some by (simp add: names_update_col find_append_one)
      moreover have "mapE f (the_cells ?cs' c) = Inr R"
      proof (cases "c = dst")
        case True
        have "mapE f R = Inr R" using H1 R by (rule mapE_idem [of f "the_cells cs c" R])
        with True show ?thesis by (simp add: cd)
      next
        case False
        with R show ?thesis by (simp add: the_cells_update_col)
      qed
      ultimately show ?thesis using nb' by (simp add: field_rest_def)
    next
      case None
      then have R: "R = replicate n dflt" using r nb by (auto simp: field_rest_def)
      have m: "mapE f R = Inr R" unfolding R using H3 by (rule mapE_replicate)
      show ?thesis
        using None nb' m R
        by (auto simp: field_rest_def names_update_col find_append_one the_cells_update_col
            split: option.splits if_splits)
    qed
  qed
qed

lemma field_cells_idem:
  assumes H1: "\<And>x y. f x = Inr y \<Longrightarrow> f y = Inr y" and H3: "f dflt = Inr dflt"
    and ne: "basic \<noteq> dst" "detail \<noteq> dst"
    and len: "\<And>c. c \<in> fst ` set cs \<Longrightarrow> length (the_cells cs c) = n"
    and r: "field_cells f cell_isna syn detail basic dst dflt n cs = Inr R"
  shows "field_cells f cell_isna syn detail basic dst dflt n (update_col dst R cs) = Inr R"
proof (cases "detail \<in> fst ` set cs")
  case True
  then obtain v where v: "mapE f (the_cells cs detail) = Inr v"
    and rest: "field_rest f cell_isna syn basic dst dflt n (update_col dst v cs) = Inr R"
    using r by (auto simp: field_cells_def split: sum.splits)
  show ?thesis
    using True v rest ne
    by (simp add: field_cells_def keys_update_col the_cells_update_col update_col_twice)
next
  case False
  then have rest: "field_rest f cell_isna syn basic dst dflt n cs = Inr R"
    using r by (simp add: field_cells_def)
  have "field_rest f cell_isna syn basic dst dflt n (update_col dst R cs) = Inr R"
    using H1 H3 ne(1) _ rest
  proof (rule field_rest_idem)
    assume "basic \<in> fst ` set cs" and "dst \<in> fst ` set cs"
    then show "length (the_cells cs basic) = length (the_cells cs dst)" by (simp add: len)
  qed
  then show ?thesis using False ne by (simp add: field_cells_def keys_update_col)
qed

subsection \<open>What the other blocks leave unchanged\<close>

lemma uo_refl: "unchanged_outside W df df"
  by (simp add: unchanged_outside_def)

lemma uo_trans:
  "unchanged_outside W df df' \<Longrightarrow> unchanged_outside W df' df'' \<Longrightarrow> unchanged_outside W df df''"
  by (simp add: unchanged_outside_def)

lemma uo_mono: "unchanged_outside W df df' \<Longrightarrow> W \<subseteq> W' \<Longrightarrow> unchanged_outside W' df df'"
  by (simp add: unchanged_outside_def subset_iff)

lemma uo_set_col: "c \<in> W \<Longrightarrow> unchanged_outside W df (set_col df c s)"
  by (auto simp: unchanged_outside_def cols_set_col filter_update_col nrows_set_col)

lemma uo_apply_col: "apply_col f src dst df = Inr df' \<Longrightarrow> dst \<in> W \<Longrightarrow> unchanged_outside W df df'"
  by (auto simp: apply_col_def uo_set_col split: sum.splits)

lemma uo_fill_col:
  "fill_col f sel_of src dst df = Inr df' \<Longrightarrow> dst \<in> W \<Longrightarrow> unchanged_outside W df df'"
  by (auto simp: fill_col_def uo_set_col split: sum.splits)

lemma uo_scan:
  "scan_or_default f syn dst dflt n df = (ns, Inr df') \<Longrightarrow> dst \<in> W \<Longrightarrow> unchanged_outside W df df'"
  by (auto simp: scan_or_default_def uo_set_col uo_apply_col split: option.splits)

lemma uo_field_step:
  assumes "field_step f sel_of syn detail basic dst dflt n df = (ns, Inr df')" and "dst \<in> W"
  shows "unchanged_outside W df df'"
proof -
  obtain df1 where d: "(if has_col df detail then apply_col f detail dst df else Inr df) = Inr df1"
    using assms by (auto simp: field_step_def split: sum.splits)
  have 1: "unchanged_outside W df df1"
    using d assms(2) by (auto simp: uo_refl uo_apply_col split: if_splits)
  have rest: "(if has_col df1 basic \<and> has_col df1 dst then ([], fill_col f sel_of basic dst df1)
          else if has_col df1 basic then ([], apply_col f basic dst df1)
          else scan_or_default f syn dst dflt n df1) = (ns, Inr df')"
    using assms d by (simp add: field_step_def)
  have 2: "unchanged_outside W df1 df'"
    using rest assms(2) by (auto simp: uo_fill_col uo_apply_col uo_scan split: if_splits)
  from 1 2 show ?thesis by (rule uo_trans)
qed

lemma uo_year_step: "year_step df = (ns, Inr df') \<Longrightarrow> col_year \<in> W \<Longrightarrow> unchanged_outside W df df'"
  by (auto simp: year_step_def uo_refl uo_set_col split: if_splits sum.splits)

lemma uo_price_step:
  assumes "price_step L df = (ns, Inr df')"
    and "col_orig_price \<in> W" "col_disc_price \<in> W" "col_price \<in> W"
  shows "unchanged_outside W df df'"
proof -
  obtain df1 where d1: "(if has_col df col_orig_price
            then apply_col (price_cell L) col_orig_price col_orig_price df else Inr df) = Inr df1"
    using assms(1) by (auto simp: price_step_def split: sum.splits)
  obtain df2 where d2: "(if has_col df1 col_disc_price
            then apply_col (price_cell L) col_disc_price col_disc_price df1 else Inr df1) = Inr df2"
    using assms(1) d1 by (auto simp: price_step_def split: sum.splits)
  have 1: "unchanged_outside W df df1"
    using d1 assms(2) by (auto simp: uo_refl uo_apply_col split: if_splits)
  have 2: "unchanged_outside W df1 df2"
    using d2 assms(3) by (auto simp: uo_refl uo_apply_col split: if_splits)
  have rest: "(if has_col df2 col_disc_price \<and> has_col df2 col_orig_price then
                 ([], Inr (set_col df2 col_price
                             (fillna (get_col df2 col_disc_price) (get_col df2 col_orig_price))))
               else if has_col df2 col_disc_price then
                 ([], Inr (set_col df2 col_price (get_col df2 col_disc_price)))
               else if has_col df2 col_orig_price then
                 ([], Inr (set_col df2 col_price (get_col df2 col_orig_price)))
               else scan_or_default (price_cell L) price_syn col_price (CFloat 0)
                      NoPriceColumn df2) = (ns, Inr df')"
    using assms(1) d1 d2 by (simp add: price_step_def)
  have 3: "unchanged_outside W df2 df'"
    using rest assms(4) by (auto simp: uo_set_col uo_scan split: if_splits)
  from 1 2 3 show ?thesis by (blast intro: uo_trans)
qed

lemma uo_filter:
  assumes "unchanged_outside W df df'" and "\<And>c. c \<in> W \<Longrightarrow> \<not> P c"
  shows "filter (\<lambda>kv. P (fst kv)) (cols df') = filter (\<lambda>kv. P (fst kv)) (cols df)"
proof -
  from assms(1) have "\<forall>P. (\<forall>c \<in> W. \<not> P c) \<longrightarrow>
        filter (\<lambda>kv. P (fst kv)) (cols df') = filter (\<lambda>kv. P (fst kv)) (cols df)"
    by (simp add: unchanged_outside_def)
  then have "(\<forall>c \<in> W. \<not> P c) \<longrightarrow>
        filter (\<lambda>kv. P (fst kv)) (cols df') = filter (\<lambda>kv. P (fst kv)) (cols df)"
    by (rule spec)
  with assms(2) show ?thesis by simp
qed

lemma uo_nrows: "unchanged_outside W df df' \<Longrightarrow> nrows df' = nrows df"
  by (simp add: unchanged_outside_def)

lemma uo_the_cells:
  assumes "unchanged_outside W df df'" and "c \<notin> W"
  shows "the_cells (cols df') c = the_cells (cols df) c"
proof -
  let ?P = "\<lambda>x. x = c"
  have "filter (\<lambda>kv. ?P (fst kv)) (cols df') = filter (\<lambda>kv. ?P (fst kv)) (cols df)"
    using assms(1) by (rule uo_filter [of W df df' ?P]) (use assms(2) in auto)
  moreover have "the_cells (filter (\<lambda>kv. ?P (fst kv)) cs) c = the_cells cs c" for cs
    by (rule the_cells_filter [of ?P c cs]) simp
  ultimately show ?thesis by metis
qed

lemma wf_frame_cols: "wf_frame df \<longleftrightarrow> (\<forall>kv \<in> set (cols df). length (snd kv) = nrows df)"
  by (auto simp: wf_frame_def cols_def list_all_iff)

lemma in_update_col: "kv \<in> set (update_col c v cs) \<Longrightarrow> kv = (c, v) \<or> kv \<in> set cs"
  by (induction cs) (auto split: if_splits)

lemma wf_set_col:
  assumes "wf_frame df" and "length (cells s) = nrows df"
  shows "wf_frame (set_col df c s)"
proof -
  have "length (snd kv) = nrows df" if "kv \<in> set (update_col c (cells s) (cols df))" for kv
  proof -
    from that have "kv = (c, cells s) \<or> kv \<in> set (cols df)" by (rule in_update_col)
    then show ?thesis using assms by (auto simp: wf_frame_cols)
  qed
  then show ?thesis by (simp add: wf_frame_cols cols_set_col nrows_set_col)
qed

lemma wf_the_cells:
  assumes "wf_frame df" and "c \<in> fst ` set (cols df)"
  shows "length (the_cells (cols df) c) = nrows df"
proof -
  from assms(2) obtain v where "map_of (cols df) c = Some v"
    by (metis domD dom_map_of_conv_image_fst)
  moreover from this have "(c, v) \<in> set (cols df)" by (rule map_of_SomeD)
  ultimately show ?thesis using assms(1) by (auto simp: wf_frame_cols the_cells_def)
qed

lemma wf_get_col: "wf_frame df \<Longrightarrow> has_col df c \<Longrightarrow> length (cells (get_col df c)) = nrows df"
  by (simp add: cells_get_col has_col_cols wf_the_cells)

lemma wf_apply_col:
  assumes "wf_frame df" and "has_col df src" and "apply_col f src dst df = Inr df'"
  shows "wf_frame df'"
proof -
  from assms(3) obtain cs where m: "mapE f (cells (get_col df src)) = Inr cs"
    and df': "df' = set_col df dst (mk_series cs)"
    by (auto simp: apply_col_def apply_series_def split: sum.splits)
  from m have "length cs = nrows df" using assms(1,2) by (simp add: mapE_length wf_get_col)
  then show ?thesis unfolding df' using assms(1) by (simp add: wf_set_col mk_series_def)
qed

lemma find_has_col: "find syn (col_names df) = Some c \<Longrightarrow> has_col df c"
  by (auto simp: has_col_def find_Some_iff)

lemma wf_scan:
  assumes "wf_frame df" and "scan_or_default f syn dst dflt n df = (ns, Inr df')"
  shows "wf_frame df'"
  using assms
  by (auto simp: scan_or_default_def const_series_def mk_series_def wf_set_col
      intro: wf_apply_col find_has_col split: option.splits)

lemma wf_price_step:
  assumes "wf_frame df" and "price_step L df = (ns, Inr df')"
  shows "wf_frame df'"
proof -
  obtain df1 where d1: "(if has_col df col_orig_price
            then apply_col (price_cell L) col_orig_price col_orig_price df else Inr df) = Inr df1"
    using assms(2) by (auto simp: price_step_def split: sum.splits)
  obtain df2 where d2: "(if has_col df1 col_disc_price
            then apply_col (price_cell L) col_disc_price col_disc_price df1 else Inr df1) = Inr df2"
    using assms(2) d1 by (auto simp: price_step_def split: sum.splits)
  have 1: "wf_frame df1"
    using d1 assms(1) by (auto intro: wf_apply_col split: if_splits)
  have 2: "wf_frame df2"
    using d2 1 by (auto intro: wf_apply_col split: if_splits)
  have rest: "(if has_col df2 col_disc_price \<and> has_col df2 col_orig_price then
                 ([], Inr (set_col df2 col_price
                             (fillna (get_col df2 col_disc_price) (get_col df2 col_orig_price))))
               else if has_col df2 col_disc_price then
                 ([], Inr (set_col df2 col_price (get_col df2 col_disc_price)))
               else if has_col df2 col_orig_price then
                 ([], Inr (set_col df2 col_price (get_col df2 col_orig_price)))
               else scan_or_default (price_cell L) price_syn col_price (CFloat 0)
                      NoPriceColumn df2) = (ns, Inr df')"
    using assms(2) d1 d2 by (simp add: price_step_def)
  show ?thesis
    using rest 2
    by (auto simp: wf_set_col wf_get_col fillna_def intro: wf_scan split: if_splits)
qed

lemma clean_frame_steps:
  assumes "clean_frame L df = (ns, Inr df')"
  obtains n1 n2 n3 n4 n5 d1 d2 d3 d4 where
    "price_step L df = (n1, Inr d1)" "rating_step L d1 = (n2, Inr d2)"
    "tags_step L d2 = (n3, Inr d3)" "date_step L d3 = (n4, Inr d4)"
    "year_step d4 = (n5, Inr df')"
  using assms
  by (auto simp: clean_frame_def and_then_def split: prod.splits sum.splits)

lemma rating_cell_again: "rating_cell L x = Inr y \<Longrightarrow> rating_cell L y = Inr y"
  by (auto simp: rating_cell_def clean_rating_def isna_truth_def eq_str_def
      split: sum.splits option.splits if_splits cell.splits list.splits)

lemma rating_cell_null: "rating_cell L CNull = Inr CNull"
  by (simp add: rating_cell_def clean_rating_def isna_truth_def)

text \<open>A run that returns keeps the number of rows.\<close>

lemma clean_frame_nrows:
  assumes "clean_frame L df = (ns, Inr df')"
  shows "nrows df' = nrows df"
proof -
  from assms obtain m1 m2 m3 m4 m5 d1 d2 d3 d4 where
    a1: "price_step L df = (m1, Inr d1)" and a2: "rating_step L d1 = (m2, Inr d2)" and
    a3: "tags_step L d2 = (m3, Inr d3)" and a4: "date_step L d3 = (m4, Inr d4)" and
    a5: "year_step d4 = (m5, Inr df')"
    by (rule clean_frame_steps)
  have "unchanged_outside UNIV df d1" using a1 by (rule uo_price_step) simp_all
  moreover have "unchanged_outside UNIV d1 d2"
    using a2 [unfolded rating_step_def] by (rule uo_field_step) simp
  moreover have "unchanged_outside UNIV d2 d3"
    using a3 [unfolded tags_step_def] by (rule uo_field_step) simp
  moreover have "unchanged_outside UNIV d3 d4"
    using a4 [unfolded date_step_def] by (rule uo_field_step) simp
  moreover have "unchanged_outside UNIV d4 df'" using a5 by (rule uo_year_step) simp
  ultimately show ?thesis by (simp add: unchanged_outside_def)
qed

lemma nd0: "nat_digits 0 = [48]"
  by (simp add: nat_digits.simps)

lemma frac_digits_zero: "frac_digits n 0 = []"
  by (cases n) simp_all

text \<open>
  C6: normalizing the output of normalization leaves every canonical field unchanged.
  The code does not keep this for the tags. When the tags come from a column named as
  the canonical tag column, the first run replaces its strings by lists, and the second
  run hands these lists to \<open>clean_tags\<close>: it returns the empty list for a list of one
  tag, so the tag \<open>Action\<close> is lost, and it raises \<open>ValueError\<close> for a list of two or more
  tags, at the truth value of \<open>pd.isna(tags)\<close>. \<open>main\<close> calls \<open>clean_data\<close> on such a frame:
  its sample data holds lists of three to seven tags in the canonical tag column.
\<close>

theorem renormalized_tags_lost:
  "column_of
     (clean_frame ref_lib
        (csv_frame 1 [(col_tags, [CStr (u ''Action'')]), (col_detail_date, [CStr (u ''2021-03-15'')])]))
     col_tags = Inr [CList [u ''Action'']]
   \<and> column_of
     (normalize_twice ref_lib
        (csv_frame 1 [(col_tags, [CStr (u ''Action'')]), (col_detail_date, [CStr (u ''2021-03-15'')])]))
     col_tags = Inr [CList []]
   \<and> column_of
     (clean_frame ref_lib
        (csv_frame 1 [(col_tags, [CStr (u ''Action, Indie'')]),
                      (col_detail_date, [CStr (u ''2021-03-15'')])]))
     col_tags = Inr [CList [u ''Action'', u ''Indie'']]
   \<and> snd (normalize_twice ref_lib
        (csv_frame 1 [(col_tags, [CStr (u ''Action, Indie'')]),
                      (col_detail_date, [CStr (u ''2021-03-15'')])]))
     = Inl ValueError"
proof -
  let ?df0 = "csv_frame 1 [(col_tags, [CStr (u ''Action'')]), (col_detail_date, [CStr (u ''2021-03-15'')])]"
  let ?df1 = "\<lparr>nrows = 1, columns =
     [(col_tags, \<lparr>is_datetime = False, cells = [CList [u ''Action'']]\<rparr>),
      (col_detail_date, \<lparr>is_datetime = False, cells = [CStr (u ''2021-03-15'')]\<rparr>),
      (col_price, \<lparr>is_datetime = False, cells = [CFloat 0]\<rparr>),
      (col_rating, \<lparr>is_datetime = False, cells = [CNull]\<rparr>),
      (col_date, \<lparr>is_datetime = True, cells = [CTime (Timestamp 2021 3 15)]\<rparr>),
      (col_year, \<lparr>is_datetime = False, cells = [CInt 2021]\<rparr>)]\<rparr>"
  have first: "clean_frame ref_lib ?df0 = ([NoPriceColumn, NoRatingColumn], Inr ?df1)"
    by (simp add: names_defs frame_defs step_defs parser_defs ref_defs)
  have second: "column_of (clean_frame ref_lib ?df1) col_tags = Inr [CList []]"
    by (simp add: names_defs frame_defs step_defs parser_defs ref_defs ref_float_str_def nd0 frac_digits_zero Let_def)
  have a: "column_of (clean_frame ref_lib ?df0) col_tags = Inr [CList [u ''Action'']]"
    unfolding first by (simp add: column_of_def get_col_def names_defs)
  have b: "normalize_twice ref_lib ?df0 = clean_frame ref_lib ?df1"
    unfolding normalize_twice_def first by simp
  let ?ef0 = "csv_frame 1 [(col_tags, [CStr (u ''Action, Indie'')]),
                      (col_detail_date, [CStr (u ''2021-03-15'')])]"
  let ?ef1 = "\<lparr>nrows = 1, columns =
     [(col_tags, \<lparr>is_datetime = False, cells = [CList [u ''Action'', u ''Indie'']]\<rparr>),
      (col_detail_date, \<lparr>is_datetime = False, cells = [CStr (u ''2021-03-15'')]\<rparr>),
      (col_price, \<lparr>is_datetime = False, cells = [CFloat 0]\<rparr>),
      (col_rating, \<lparr>is_datetime = False, cells = [CNull]\<rparr>),
      (col_date, \<lparr>is_datetime = True, cells = [CTime (Timestamp 2021 3 15)]\<rparr>),
      (col_year, \<lparr>is_datetime = False, cells = [CInt 2021]\<rparr>)]\<rparr>"
  have first': "clean_frame ref_lib ?ef0 = ([NoPriceColumn, NoRatingColumn], Inr ?ef1)"
    by (simp add: names_defs frame_defs step_defs parser_defs ref_defs split_comma.simps)
  have second': "snd (clean_frame ref_lib ?ef1) = Inl ValueError"
    by (simp add: names_defs frame_defs step_defs parser_defs ref_defs ref_float_str_def nd0 frac_digits_zero Let_def)
  have a': "column_of (clean_frame ref_lib ?ef0) col_tags = Inr [CList [u ''Action'', u ''Indie'']]"
    unfolding first' by (simp add: column_of_def get_col_def names_defs)
  have b': "normalize_twice ref_lib ?ef0 = clean_frame ref_lib ?ef1"
    unfolding normalize_twice_def first' by simp
  from a second a' second' show ?thesis unfolding b b' by simp
qed

text \<open>
  The rating is not touched by this: for every well-formed record set, if normalization
  returns and normalizing its result returns too, the second result has the rating of
  every record as the first has it.
\<close>

theorem rating_idempotent:
  assumes wf: "wf_frame df"
    and p1: "clean_frame L df = (ns, Inr df1)"
    and p2: "clean_frame L df1 = (ns', Inr df2)"
  shows "cells (get_col df2 col_rating) = cells (get_col df1 col_rating)"
proof -
  from p1 obtain m1 m2 m3 m4 m5 d1 d2 d3 d4 where
    a1: "price_step L df = (m1, Inr d1)" and a2: "rating_step L d1 = (m2, Inr d2)" and
    a3: "tags_step L d2 = (m3, Inr d3)" and a4: "date_step L d3 = (m4, Inr d4)" and
    a5: "year_step d4 = (m5, Inr df1)"
    by (rule clean_frame_steps)
  from p2 obtain k1 k2 k3 k4 k5 e1 e2 e3 e4 where
    b1: "price_step L df1 = (k1, Inr e1)" and b2: "rating_step L e1 = (k2, Inr e2)" and
    b3: "tags_step L e2 = (k3, Inr e3)" and b4: "date_step L e3 = (k4, Inr e4)" and
    b5: "year_step e4 = (k5, Inr df2)"
    by (rule clean_frame_steps)
  define P where "P c \<longleftrightarrow> c = col_detail_rating \<or> c = col_basic_rating \<or> c = col_rating
    \<or> rating_syn c" for c
  let ?F = "field_cells (rating_cell L) cell_isna rating_syn col_detail_rating col_basic_rating
    col_rating CNull"
  let ?W = "{col_tags, col_date, col_year, col_orig_price, col_disc_price, col_price}"
  have nP: "\<not> P c" if "c \<in> ?W" for c
    using that by (auto simp: P_def names_defs rating_syn_def lower_def lower_cp_def)
  have nW: "col_rating \<notin> ?W" by (simp add: names_defs)
  have rel: "?F n (filter (\<lambda>kv. P (fst kv)) cs) = ?F n cs" for n cs
    by (rule field_cells_relevant [of P col_detail_rating col_basic_rating col_rating rating_syn])
      (simp_all add: P_def)
  let ?R = "the_cells (cols d2) col_rating"
  from field_step_cells [OF a2 [unfolded rating_step_def]]
  have r1: "?F (nrows d1) (cols d1) = Inr ?R"
    and c2: "cols d2 = update_col col_rating ?R (cols d1)" and n2: "nrows d2 = nrows d1"
    by simp_all
  have wf1: "wf_frame d1" using wf a1 by (rule wf_price_step)
  have "?F (nrows d1) (update_col col_rating ?R (cols d1)) = Inr ?R"
  proof (rule field_cells_idem [OF _ _ _ _ _ r1])
    show "rating_cell L x = Inr y \<Longrightarrow> rating_cell L y = Inr y" for x y
      by (rule rating_cell_again)
    show "rating_cell L CNull = Inr CNull" by (rule rating_cell_null)
    show "col_basic_rating \<noteq> col_rating" "col_detail_rating \<noteq> col_rating"
      by (simp_all add: names_defs)
    show "length (the_cells (cols d1) c) = nrows d1" if "c \<in> fst ` set (cols d1)" for c
      using wf1 that by (rule wf_the_cells)
  qed
  then have i: "?F (nrows d2) (cols d2) = Inr ?R" using c2 n2 by simp
  have u3: "unchanged_outside ?W d2 d3"
    using a3 [unfolded tags_step_def] by (rule uo_field_step) simp
  have u4: "unchanged_outside ?W d3 d4"
    using a4 [unfolded date_step_def] by (rule uo_field_step) simp
  have u5: "unchanged_outside ?W d4 df1" using a5 by (rule uo_year_step) simp
  have u6: "unchanged_outside ?W df1 e1" using b1 by (rule uo_price_step) simp_all
  have v3: "unchanged_outside ?W e2 e3"
    using b3 [unfolded tags_step_def] by (rule uo_field_step) simp
  have v4: "unchanged_outside ?W e3 e4"
    using b4 [unfolded date_step_def] by (rule uo_field_step) simp
  have v5: "unchanged_outside ?W e4 df2" using b5 by (rule uo_year_step) simp
  have first: "unchanged_outside ?W d2 df1" using u3 u4 u5 by (blast intro: uo_trans)
  have mid: "unchanged_outside ?W d2 e1" using first u6 by (rule uo_trans)
  have last: "unchanged_outside ?W e2 df2" using v3 v4 v5 by (blast intro: uo_trans)
  have f: "filter (\<lambda>kv. P (fst kv)) (cols e1) = filter (\<lambda>kv. P (fst kv)) (cols d2)"
    using mid nP by (rule uo_filter)
  have ne: "nrows e1 = nrows d2" using mid by (rule uo_nrows)
  have "?F (nrows e1) (cols e1) = ?F (nrows e1) (filter (\<lambda>kv. P (fst kv)) (cols e1))"
    by (simp only: rel)
  also have "\<dots> = ?F (nrows d2) (cols d2)" unfolding f ne by (rule rel)
  finally have "?F (nrows e1) (cols e1) = Inr ?R" using i by simp
  moreover from field_step_cells [OF b2 [unfolded rating_step_def]]
  have "?F (nrows e1) (cols e1) = Inr (the_cells (cols e2) col_rating)" by simp
  ultimately have "the_cells (cols e2) col_rating = ?R" by simp
  moreover have "the_cells (cols df2) col_rating = the_cells (cols e2) col_rating"
    using last nW by (rule uo_the_cells)
  moreover have "the_cells (cols df1) col_rating = ?R"
    using first nW by (rule uo_the_cells)
  ultimately show ?thesis by (simp add: cells_get_col)
qed

theorem rating_idempotent_witness:
  "wf_frame (csv_frame 2
      [(col_detail_rating, [CStr (u ''92%''), CStr lit_unknown]),
       (col_basic_rating, [CStr (u ''90%''), CInt 77]),
       (col_detail_tags, [CStr (u ''Action''), CStr (u ''Indie, RPG'')]),
       (col_detail_date, [CStr (u ''2021-03-15''), CNull])])
   \<and> column_of (clean_frame ref_lib (csv_frame 2
      [(col_detail_rating, [CStr (u ''92%''), CStr lit_unknown]),
       (col_basic_rating, [CStr (u ''90%''), CInt 77]),
       (col_detail_tags, [CStr (u ''Action''), CStr (u ''Indie, RPG'')]),
       (col_detail_date, [CStr (u ''2021-03-15''), CNull])])) col_rating
       = Inr [CFloat 92, CFloat 77]
   \<and> column_of (normalize_twice ref_lib (csv_frame 2
      [(col_detail_rating, [CStr (u ''92%''), CStr lit_unknown]),
       (col_basic_rating, [CStr (u ''90%''), CInt 77]),
       (col_detail_tags, [CStr (u ''Action''), CStr (u ''Indie, RPG'')]),
       (col_detail_date, [CStr (u ''2021-03-15''), CNull])])) col_rating
       = Inr [CFloat 92, CFloat 77]"
proof -
  let ?df0 = "csv_frame 2
      [(col_detail_rating, [CStr (u ''92%''), CStr lit_unknown]),
       (col_basic_rating, [CStr (u ''90%''), CInt 77]),
       (col_detail_tags, [CStr (u ''Action''), CStr (u ''Indie, RPG'')]),
       (col_detail_date, [CStr (u ''2021-03-15''), CNull])]"
  let ?df1 = "\<lparr>nrows = 2, columns =
     [(col_detail_rating, \<lparr>is_datetime = False, cells = [CStr (u ''92%''), CStr lit_unknown]\<rparr>),
      (col_basic_rating, \<lparr>is_datetime = False, cells = [CStr (u ''90%''), CInt 77]\<rparr>),
      (col_detail_tags, \<lparr>is_datetime = False,
         cells = [CStr (u ''Action''), CStr (u ''Indie, RPG'')]\<rparr>),
      (col_detail_date, \<lparr>is_datetime = False, cells = [CStr (u ''2021-03-15''), CNull]\<rparr>),
      (col_price, \<lparr>is_datetime = False, cells = [CFloat 0, CFloat 0]\<rparr>),
      (col_rating, \<lparr>is_datetime = False, cells = [CFloat 92, CFloat 77]\<rparr>),
      (col_tags, \<lparr>is_datetime = False,
         cells = [CList [u ''Action''], CList [u ''Indie'', u ''RPG'']]\<rparr>),
      (col_date, \<lparr>is_datetime = True, cells = [CTime (Timestamp 2021 3 15), CNull]\<rparr>),
      (col_year, \<lparr>is_datetime = False, cells = [CFloat 2021, CNull]\<rparr>)]\<rparr>"
  have wf: "wf_frame ?df0" by (simp add: wf_frame_def csv_frame_def)
  have p1: "clean_frame ref_lib ?df0 = ([NoPriceColumn], Inr ?df1)"
    by (simp add: names_defs frame_defs step_defs parser_defs ref_defs search_percent.simps
        numeral_2_eq_2)
  have p2: "clean_frame ref_lib ?df1 = ([], Inr ?df1)"
    by (simp add: names_defs frame_defs step_defs parser_defs ref_defs search_percent.simps
        ref_float_str_def nd0 frac_digits_zero Let_def)
  have a: "column_of (clean_frame ref_lib ?df0) col_rating = Inr [CFloat 92, CFloat 77]"
    unfolding p1 by (simp add: column_of_def get_col_def names_defs)
  have n: "normalize_twice ref_lib ?df0 = clean_frame ref_lib ?df1"
    unfolding normalize_twice_def p1 by simp
  have "cells (get_col ?df1 col_rating) = cells (get_col ?df1 col_rating)"
    using wf p1 p2 by (rule rating_idempotent)
  then have b: "column_of (normalize_twice ref_lib ?df0) col_rating = Inr [CFloat 92, CFloat 77]"
    unfolding n p2 by (simp add: column_of_def get_col_def names_defs)
  from wf a b show ?thesis by (intro conjI)
qed

end
